theory Spec2Isabelle
  imports Main "HOL-Library.Word" "HOL-Library.Multiset"
begin

section \<open>Go's float64\<close>

text \<open>
  The plugin computes on Go \<^verbatim>\<open>float64\<close> values: it adds them, compares them, converts
  \<^verbatim>\<open>int64\<close> to them, converts them to \<^verbatim>\<open>int\<close> and prints them with \<^verbatim>\<open>%f\<close>.
  A float64 is modelled as its 64 bits (IEEE 754 binary64): bit 63 is the sign, the low
  63 bits are the magnitude (11 bits of biased exponent above 52 bits of fraction).
  A magnitude below \<open>inf_mag\<close> is a finite number, \<open>inf_mag\<close> itself is infinity and
  anything above is a NaN.
\<close>

type_synonym float64 = "64 word"

definition sign_bit :: "float64 \<Rightarrow> bool" where
  "sign_bit x = (2 ^ 63 \<le> unat x)"

definition magnitude :: "float64 \<Rightarrow> nat" where
  "magnitude x = unat x mod 2 ^ 63"

definition inf_mag :: nat where
  "inf_mag = 2047 * 2 ^ 52"

definition isNaN :: "float64 \<Rightarrow> bool" where
  "isNaN x = (inf_mag < magnitude x)"

definition isInf :: "float64 \<Rightarrow> bool" where
  "isInf x = (magnitude x = inf_mag)"

definition pack :: "bool \<Rightarrow> nat \<Rightarrow> float64" where
  "pack s m = word_of_nat ((if s then 2 ^ 63 else 0) + m)"

text \<open>\<open>+0.0\<close>, the zero value of a Go \<^verbatim>\<open>float64\<close> variable, and \<open>-0.0\<close>.\<close>

definition f64_zero :: float64 where
  "f64_zero = 0"

definition f64_neg_zero :: float64 where
  "f64_neg_zero = pack True 0"

text \<open>
  A finite magnitude \<open>m\<close> denotes the number \<open>mant m * 2 ^ expo m / 2 ^ 1074\<close>:
  with exponent field 0 (subnormal) the fraction itself, otherwise the fraction with the
  hidden bit, scaled by the exponent field.
\<close>

definition mant :: "nat \<Rightarrow> nat" where
  "mant m = (if m div 2 ^ 52 = 0 then m mod 2 ^ 52 else 2 ^ 52 + m mod 2 ^ 52)"

definition expo :: "nat \<Rightarrow> nat" where
  "expo m = (if m div 2 ^ 52 = 0 then 0 else m div 2 ^ 52 - 1)"

text \<open>
  Comparison. IEEE 754 numbers are ordered as their sign-magnitude bit patterns are;
  the two zeros are equal, and every comparison with a NaN is false.
\<close>

definition key :: "float64 \<Rightarrow> int" where
  "key x = (if sign_bit x then - int (magnitude x) else int (magnitude x))"

definition f64_lt :: "float64 \<Rightarrow> float64 \<Rightarrow> bool" where
  "f64_lt a b = (\<not> isNaN a \<and> \<not> isNaN b \<and> key a < key b)"

definition f64_le :: "float64 \<Rightarrow> float64 \<Rightarrow> bool" where
  "f64_le a b = (\<not> isNaN a \<and> \<not> isNaN b \<and> key a \<le> key b)"

definition f64_gt :: "float64 \<Rightarrow> float64 \<Rightarrow> bool" where
  "f64_gt a b = f64_lt b a"

definition f64_ge :: "float64 \<Rightarrow> float64 \<Rightarrow> bool" where
  "f64_ge a b = f64_le b a"

definition f64_eq :: "float64 \<Rightarrow> float64 \<Rightarrow> bool" where
  "f64_eq a b = (\<not> isNaN a \<and> \<not> isNaN b \<and> key a = key b)"

text \<open>Rounding to nearest, ties to even: \<open>n / d\<close> rounded to an integer.\<close>

definition round_half_even :: "nat \<Rightarrow> nat \<Rightarrow> nat" where
  "round_half_even n d =
     (let q = n div d; r = n mod d
      in if 2 * r < d then q
         else if d < 2 * r then q + 1
         else if even q then q else q + 1)"

fun bit_len :: "nat \<Rightarrow> nat" where
  "bit_len n = (if n = 0 then 0 else Suc (bit_len (n div 2)))"

declare bit_len.simps [simp del]

text \<open>
  \<open>pack_mag n e\<close> is the magnitude of the float64 nearest to \<open>n * 2 ^ e / 2 ^ 1074\<close>
  (ties to even): the number is brought to a 53-bit significand, or kept as it is while
  it fits the lowest exponent; a result past the largest finite number is infinity.
\<close>

definition pack_mag :: "nat \<Rightarrow> nat \<Rightarrow> nat" where
  "pack_mag n e =
     (let l = bit_len n
      in if n = 0 then 0
         else if l + e \<le> 53 then n * 2 ^ e
         else min inf_mag
                ((l + e - 53) * 2 ^ 52 +
                 (if l \<le> 53 then n * 2 ^ (53 - l) else round_half_even n (2 ^ (l - 53)))))"

definition signed_val :: "bool \<Rightarrow> nat \<Rightarrow> int" where
  "signed_val s n = (if s then - int n else int n)"

text \<open>
  Addition, rounding to nearest. A NaN operand gives a NaN and opposite infinities give
  a NaN (which NaN is platform dependent: here the first NaN operand with its quiet bit
  set, and the default NaN of amd64; nothing below depends on that choice). Finite
  operands are aligned at a common exponent, added exactly and rounded once; an exact
  zero sum is \<open>+0\<close> unless both operands are negative.
\<close>

definition quiet :: "float64 \<Rightarrow> float64" where
  "quiet x =
     (let m = magnitude x
      in pack (sign_bit x) (if m div 2 ^ 51 mod 2 = 0 then m + 2 ^ 51 else m))"

definition default_nan :: float64 where
  "default_nan = pack True (inf_mag + 2 ^ 51)"

definition f64_add :: "float64 \<Rightarrow> float64 \<Rightarrow> float64" where
  "f64_add a b =
     (if isNaN a then quiet a
      else if isNaN b then quiet b
      else if isInf a then (if isInf b \<and> sign_bit a \<noteq> sign_bit b then default_nan else a)
      else if isInf b then b
      else
        let ma = magnitude a; mb = magnitude b;
            e = (if ma = 0 then expo mb else if mb = 0 then expo ma
                 else min (expo ma) (expo mb));
            s = signed_val (sign_bit a) (mant ma * 2 ^ (expo ma - e)) +
                signed_val (sign_bit b) (mant mb * 2 ^ (expo mb - e))
        in if s = 0 then pack (sign_bit a \<and> sign_bit b) 0
           else pack (s < 0) (pack_mag (nat \<bar>s\<bar>) e))"

text \<open>The conversion \<^verbatim>\<open>float64(i)\<close> of an \<^verbatim>\<open>int64\<close>: the nearest float64.\<close>

definition f64_of_int :: "int \<Rightarrow> float64" where
  "f64_of_int i = pack (i < 0) (pack_mag (nat \<bar>i\<bar>) 1074)"

definition f64_of_int64 :: "64 word \<Rightarrow> float64" where
  "f64_of_int64 w = f64_of_int (sint w)"

text \<open>
  The conversion \<^verbatim>\<open>int(x)\<close> to Go's 64-bit \<^verbatim>\<open>int\<close>: the fraction is discarded
  (truncation towards zero). Where the result does not fit, or \<open>x\<close> is a NaN or an
  infinity, Go leaves the value to the implementation; amd64 gives the least \<^verbatim>\<open>int64\<close>.
\<close>

definition trunc_mag :: "nat \<Rightarrow> nat" where
  "trunc_mag m =
     (if 1074 \<le> expo m then mant m * 2 ^ (expo m - 1074)
      else mant m div 2 ^ (1074 - expo m))"

definition f64_to_int :: "float64 \<Rightarrow> int" where
  "f64_to_int x =
     (if inf_mag \<le> magnitude x then - (2 ^ 63)
      else
        let i = signed_val (sign_bit x) (trunc_mag (magnitude x))
        in if - (2 ^ 63) \<le> i \<and> i < 2 ^ 63 then i else - (2 ^ 63))"

section \<open>Formatting\<close>

text \<open>The verbs of \<^verbatim>\<open>fmt.Sprintf\<close> that the plugin uses: \<^verbatim>\<open>%d\<close> and \<^verbatim>\<open>%f\<close>.\<close>

definition digit_char :: "nat \<Rightarrow> char" where
  "digit_char d = ''0123456789'' ! d"

fun decimal :: "nat \<Rightarrow> string" where
  "decimal n = (if n < 10 then [digit_char n] else decimal (n div 10) @ [digit_char (n mod 10)])"

declare decimal.simps [simp del]

definition fmt_d :: "int \<Rightarrow> string" where
  "fmt_d i = (if i < 0 then ''-'' @ decimal (nat (- i)) else decimal (nat i))"

text \<open>The six digits of a number below \<open>10 ^ 6\<close>, with leading zeros.\<close>

definition pad6 :: "nat \<Rightarrow> string" where
  "pad6 k =
     [digit_char (k div 100000 mod 10), digit_char (k div 10000 mod 10),
      digit_char (k div 1000 mod 10), digit_char (k div 100 mod 10),
      digit_char (k div 10 mod 10), digit_char (k mod 10)]"

text \<open>
  \<^verbatim>\<open>%f\<close>: six digits after the point, the exact value rounded to nearest (ties to
  even); the sign of a negative number is kept, also for \<open>-0\<close>.
\<close>

definition micro_units :: "nat \<Rightarrow> nat" where
  "micro_units m =
     (if 1074 \<le> expo m then mant m * 2 ^ (expo m - 1074) * 10 ^ 6
      else round_half_even (mant m * 10 ^ 6) (2 ^ (1074 - expo m)))"

definition fmt_f :: "float64 \<Rightarrow> string" where
  "fmt_f x =
     (if isNaN x then ''NaN''
      else if isInf x then (if sign_bit x then ''-Inf'' else ''+Inf'')
      else
        let u = micro_units (magnitude x)
        in (if sign_bit x then ''-'' else '''') @ decimal (u div 10 ^ 6) @ ''.'' @ pad6 (u mod 10 ^ 6))"

section \<open>The data of the plugin\<close>

text \<open>
  The command-line options that the evaluation reads (the others configure the request
  to the monitoring API): the aggregation policy and the two thresholds.
\<close>

record Options =
  Evalution :: string
  Critical :: float64
  Warning :: float64

record Metric =
  Name :: string
  Value :: float64

text \<open>
  The protobuf messages of a time series, as far as the plugin reads them. A typed value
  holds at most one alternative; a distribution is read for its mean only. Pointers may
  be nil (\<open>None\<close>), and the generated getters accept nil receivers.
\<close>

record Distribution =
  Mean :: float64

datatype TypedValue =
    NoValue
  | BoolValue bool
  | Int64Value "64 word"
  | DoubleValue float64
  | StringValue string
  | DistributionValue "Distribution option"

datatype Point = Point "TypedValue option"

text \<open>
  One element of the response: the labels of its monitored resource, in the order in
  which Go's \<^verbatim>\<open>range\<close> visits the map (an order that Go leaves open), the name of
  its value type (\<^verbatim>\<open>resp.ValueType.String()\<close>) and its points.
\<close>

record TimeSeries =
  Labels :: "(string \<times> string) list"
  ValueType :: string
  Points :: "Point option list"

text \<open>What \<^verbatim>\<open>it.Next()\<close> returns before \<^verbatim>\<open>iterator.Done\<close>: a time series or an error.\<close>

datatype fetched = Series TimeSeries | Failure

text \<open>The status constants (\<^verbatim>\<open>iota\<close>).\<close>

definition OK :: int where
  "OK = 0"

definition WARNING :: int where
  "WARNING = 1"

definition CRITICAL :: int where
  "CRITICAL = 2"

definition UNKNOWN :: int where
  "UNKNOWN = 3"

section \<open>The functions of the plugin\<close>

subsection \<open>getFloatValue\<close>

text \<open>
  \<^verbatim>\<open>
  func getFloatValue(valueType string, typedValue *monitoringpb.TypedValue) float64 {
      var ret float64
      switch valueType {
      case "INT64":
          ret = float64(typedValue.GetInt64Value())
      case "DOUBLE":
          ret = typedValue.GetDoubleValue()
      case "DISTRIBUTION":
          ret = typedValue.GetDistributionValue().GetMean()
      default:
      }
      return ret
  }
  \<close>
  The getters of the generated protobuf code return the zero value when the receiver is
  nil or holds another alternative.
\<close>

definition GetValue :: "Point option \<Rightarrow> TypedValue option" where
  "GetValue p = (case p of None \<Rightarrow> None | Some (Point v) \<Rightarrow> v)"

definition GetInt64Value :: "TypedValue option \<Rightarrow> 64 word" where
  "GetInt64Value t = (case t of Some (Int64Value i) \<Rightarrow> i | _ \<Rightarrow> 0)"

definition GetDoubleValue :: "TypedValue option \<Rightarrow> float64" where
  "GetDoubleValue t = (case t of Some (DoubleValue d) \<Rightarrow> d | _ \<Rightarrow> f64_zero)"

definition GetDistributionValue :: "TypedValue option \<Rightarrow> Distribution option" where
  "GetDistributionValue t = (case t of Some (DistributionValue d) \<Rightarrow> d | _ \<Rightarrow> None)"

definition GetMean :: "Distribution option \<Rightarrow> float64" where
  "GetMean d = (case d of None \<Rightarrow> f64_zero | Some x \<Rightarrow> Mean x)"

definition getFloatValue :: "string \<Rightarrow> TypedValue option \<Rightarrow> float64" where
  "getFloatValue valueType typedValue =
     (if valueType = ''INT64'' then f64_of_int64 (GetInt64Value typedValue)
      else if valueType = ''DOUBLE'' then GetDoubleValue typedValue
      else if valueType = ''DISTRIBUTION'' then GetMean (GetDistributionValue typedValue)
      else f64_zero)"

subsection \<open>evaluate\<close>

text \<open>
  \<^verbatim>\<open>
  func evaluate(evaluateType string, valueType string, points []*monitoringpb.Point) float64 {
      var ret float64
      switch evaluateType {
      case "LAST":
          ret = getFloatValue(valueType, points[0].GetValue())
      case "SUM":
          for _, point := range points {
              ret += getFloatValue(valueType, point.GetValue())
          }
      case "MAX":
          var current float64
          for _, point := range points {
              current = getFloatValue(valueType, point.GetValue())
              if current < ret {
                  continue
              }
              ret = current
          }
      }
      return ret
  }
  \<close>
  \<^verbatim>\<open>points[0]\<close> on an empty slice is a run-time panic; the two loops start from the
  zero value of \<^verbatim>\<open>ret\<close>, and each is a left fold over the points.
\<close>

datatype runtime_error = IndexOutOfRange

definition sum_step :: "string \<Rightarrow> Point option \<Rightarrow> float64 \<Rightarrow> float64" where
  "sum_step valueType point ret = f64_add ret (getFloatValue valueType (GetValue point))"

definition max_step :: "string \<Rightarrow> Point option \<Rightarrow> float64 \<Rightarrow> float64" where
  "max_step valueType point ret =
     (let current = getFloatValue valueType (GetValue point)
      in if f64_lt current ret then ret else current)"

definition evaluate :: "string \<Rightarrow> string \<Rightarrow> Point option list \<Rightarrow> runtime_error + float64" where
  "evaluate evaluateType valueType points =
     (if evaluateType = ''LAST'' then
        (case points of
           [] \<Rightarrow> Inl IndexOutOfRange
         | p # _ \<Rightarrow> Inr (getFloatValue valueType (GetValue p)))
      else if evaluateType = ''SUM'' then Inr (fold (sum_step valueType) points f64_zero)
      else if evaluateType = ''MAX'' then Inr (fold (max_step valueType) points f64_zero)
      else Inr f64_zero)"

subsection \<open>output\<close>

text \<open>
  \<^verbatim>\<open>
  func output(status int, message string) {
      switch status {
      case OK:
          message = "OK - " + message
      case WARNING:
          message = "WARNING - " + message
      case CRITICAL:
          message = "CRITICAL - " + message
      case UNKNOWN:
          message = "UNKNOWN - " + message
      default:
          message = "UNKNOWN - " + message
      }
      fmt.Println(message)
      os.Exit(status)
  }
  \<close>
  \<^verbatim>\<open>output\<close> (here \<open>output_go\<close>) prints with one \<^verbatim>\<open>fmt.Println\<close> and ends the
  process with \<^verbatim>\<open>os.Exit(status)\<close>: the result is what was written to standard output
  and the exit code, and whatever follows a call of \<^verbatim>\<open>output\<close> in \<^verbatim>\<open>main\<close> does
  not run.
\<close>

record Exited =
  stdout :: string
  code :: int

definition prefix_of :: "int \<Rightarrow> string" where
  "prefix_of status =
     (if status = OK then ''OK - ''
      else if status = WARNING then ''WARNING - ''
      else if status = CRITICAL then ''CRITICAL - ''
      else if status = UNKNOWN then ''UNKNOWN - ''
      else ''UNKNOWN - '')"

definition Println :: "string \<Rightarrow> string" where
  "Println s = s @ [CHR 0x0A]"

definition output_go :: "int \<Rightarrow> string \<Rightarrow> Exited" where
  "output_go status message = \<lparr>stdout = Println (prefix_of status @ message), code = status\<rparr>"

subsection \<open>main\<close>

text \<open>
  \<^verbatim>\<open>
  labels := resp.Resource.GetLabels()
  if _, ok := labels["project_id"]; ok {
      delete(labels, "project_id");
  }
  metric_name := ""
  for _, label := range labels {
      metric_name = label
  }
  \<close>
  The name of a metric: \<^verbatim>\<open>project_id\<close> is deleted from the labels and every remaining
  label overwrites the name, so the label visited last stays.
\<close>

definition metric_name_of :: "(string \<times> string) list \<Rightarrow> string" where
  "metric_name_of labels =
     fold (\<lambda>(k, label) metric_name. label)
       (filter (\<lambda>(k, label). k \<noteq> ''project_id'') labels) []"

text \<open>
  \<^verbatim>\<open>
  metrics := []Metric{}
  length := 0
  it := c.ListTimeSeries(ctx, req)
  for {
      resp, err := it.Next()
      if err == iterator.Done {
          break
      }
      if err != nil {
          verbose(opts.Verbose, err)
          output(UNKNOWN, "Failed to fetch time series.")
      }
      ...
      metric_value := evaluate(opts.Evalution, resp.ValueType.String(), resp.Points)
      ...
      length += len(resp.Points)
      ...
      metrics = append(metrics, Metric{metric_name,metric_value})
  }
  \<close>
  The loop over the iterator: each time series is aggregated first (which may panic),
  then its points are counted and its metric is appended. A fetch error ends the
  program with UNKNOWN.
\<close>

datatype abort = Panic runtime_error | Exit_with Exited

fun collect :: "Options \<Rightarrow> fetched list \<Rightarrow> Metric list \<Rightarrow> nat \<Rightarrow> abort + (Metric list \<times> nat)" where
  "collect opts [] metrics len = Inr (metrics, len)"
| "collect opts (Failure # rest) metrics len =
     Inl (Exit_with (output_go UNKNOWN ''Failed to fetch time series.''))"
| "collect opts (Series resp # rest) metrics len =
     (case evaluate (Evalution opts) (ValueType resp) (Points resp) of
        Inl e \<Rightarrow> Inl (Panic e)
      | Inr metric_value \<Rightarrow>
          collect opts rest
            (metrics @ [\<lparr>Name = metric_name_of (Labels resp), Value = metric_value\<rparr>])
            (len + length (Points resp)))"

text \<open>
  \<^verbatim>\<open>
  status := OK
  message = fmt.Sprintf("Everything is OK")
  perfdata := "|"
  for _, element := range metrics {
      name := element.Name
      value := element.Value
      if opts.Critical > 0.0 && value >= opts.Critical && (status == OK || status == WARNING) {
          status = CRITICAL
          message = fmt.Sprintf("%s %s value: %d over %d", name, opts.Evalution, int(value), int(opts.Critical))
      } else if opts.Warning > 0.0 && value >= opts.Warning && status == OK {
          status = WARNING
          message = fmt.Sprintf("%s %s value: %d over %d", name, opts.Evalution, int(value), int(opts.Warning))
      }
      perfdata = perfdata + fmt.Sprintf("%s=%f;%d;%d ", name, value, int(opts.Warning), int(opts.Critical))
  }
  output(status, message+perfdata)
  \<close>
  The comparison of one metric with the thresholds and its performance data are one step
  of the loop (\<open>check_metric\<close>); the loop is the fold of that step over the metrics
  (\<open>check_metrics\<close>).
\<close>

definition breach_message :: "string \<Rightarrow> string \<Rightarrow> float64 \<Rightarrow> float64 \<Rightarrow> string" where
  "breach_message name evalution v threshold =
     name @ '' '' @ evalution @ '' value: '' @ fmt_d (f64_to_int v) @ '' over '' @
     fmt_d (f64_to_int threshold)"

definition perf_token :: "Options \<Rightarrow> Metric \<Rightarrow> string" where
  "perf_token opts element =
     Name element @ ''='' @ fmt_f (Value element) @ '';'' @ fmt_d (f64_to_int (Warning opts)) @
     '';'' @ fmt_d (f64_to_int (Critical opts)) @ '' ''"

definition check_metric ::
  "Options \<Rightarrow> Metric \<Rightarrow> int \<times> string \<times> string \<Rightarrow> int \<times> string \<times> string" where
  "check_metric opts element st =
     (case st of (status, message, perfdata) \<Rightarrow>
        let name = Name element; v = Value element;
            (status', message') =
              (if f64_gt (Critical opts) f64_zero \<and> f64_ge v (Critical opts) \<and>
                  (status = OK \<or> status = WARNING)
               then (CRITICAL, breach_message name (Evalution opts) v (Critical opts))
               else if f64_gt (Warning opts) f64_zero \<and> f64_ge v (Warning opts) \<and> status = OK
               then (WARNING, breach_message name (Evalution opts) v (Warning opts))
               else (status, message))
        in (status', message', perfdata @ perf_token opts element))"

definition check_metrics :: "Options \<Rightarrow> Metric list \<Rightarrow> int \<times> string \<times> string" where
  "check_metrics opts metrics = fold (check_metric opts) metrics (OK, ''Everything is OK'', ''|'')"

text \<open>
  A run of the program: the parsed options (\<open>None\<close> when parsing fails), the error of
  the client constructor if any, and what the iterator returns. The order is that of
  \<^verbatim>\<open>main\<close>: a parse error, then a client error, then the loop over the iterator, then
  the test \<^verbatim>\<open>length == 0\<close>, then the comparison with the thresholds. Diagnostic
  printing (\<^verbatim>\<open>verbose\<close>, the help text) is left out.
\<close>

record Run =
  parsed :: "Options option"
  client_error :: "string option"
  response :: "fetched list"

datatype outcome = Panicked runtime_error | Exit Exited

definition main :: "Run \<Rightarrow> outcome" where
  "main r =
     (case parsed r of
        None \<Rightarrow> Exit (output_go UNKNOWN ''Missing required arguments.'')
      | Some opts \<Rightarrow>
          (case client_error r of
             Some err \<Rightarrow> Exit (output_go UNKNOWN (''GCP SDK Client request failed ('' @ err @ '')''))
           | None \<Rightarrow>
               (case collect opts (response r) [] 0 of
                  Inl (Panic e) \<Rightarrow> Panicked e
                | Inl (Exit_with x) \<Rightarrow> Exit x
                | Inr (metrics, len) \<Rightarrow>
                    if len = 0 then Exit (output_go UNKNOWN ''Time series is empty.'')
                    else
                      (case check_metrics opts metrics of
                         (status, message, perfdata) \<Rightarrow> Exit (output_go status (message @ perfdata))))))"

section \<open>Evaluation of the definitions\<close>

lemmas f64_cmp_defs = sign_bit_def magnitude_def inf_mag_def isNaN_def key_def f64_lt_def f64_le_def
  f64_gt_def f64_ge_def f64_eq_def f64_zero_def

lemmas f64_eval_defs = sign_bit_def magnitude_def inf_mag_def isNaN_def isInf_def pack_def f64_zero_def
  f64_neg_zero_def mant_def expo_def key_def f64_lt_def f64_le_def f64_gt_def f64_ge_def f64_eq_def
  round_half_even_def pack_mag_def signed_val_def quiet_def default_nan_def f64_add_def f64_of_int_def
  f64_of_int64_def trunc_mag_def f64_to_int_def digit_char_def fmt_d_def pad6_def micro_units_def
  fmt_f_def Let_def bit_len.simps decimal.simps

lemmas plugin_eval_defs = GetValue_def GetInt64Value_def GetDoubleValue_def GetDistributionValue_def
  GetMean_def getFloatValue_def sum_step_def max_step_def evaluate_def prefix_of_def Println_def
  output_go_def metric_name_of_def breach_message_def perf_token_def check_metric_def
  check_metrics_def main_def OK_def WARNING_def CRITICAL_def UNKNOWN_def

lemma status_consts: "OK = 0" "WARNING = 1" "CRITICAL = 2" "UNKNOWN = 3"
  by (simp_all add: OK_def WARNING_def CRITICAL_def UNKNOWN_def)

section \<open>Properties of the float64 model\<close>

subsection \<open>Sign and magnitude\<close>

lemma unat_lt_2_64: "unat (x :: 64 word) < 2 ^ 64"
  using unsigned_less [of x, where ?'a = nat] by simp

lemma pack_sign_magnitude: "pack (sign_bit x) (magnitude x) = x"
proof -
  have "(if 2 ^ 63 \<le> unat x then 2 ^ 63 else 0) + unat x mod 2 ^ 63 = unat x"
    using unat_lt_2_64 [of x] by (auto simp: mod_if)
  then show ?thesis by (simp add: pack_def sign_bit_def magnitude_def)
qed

lemma unat_pack: "m < 2 ^ 63 \<Longrightarrow> unat (pack s m) = (if s then 2 ^ 63 else 0) + m"
proof -
  assume m: "m < 2 ^ 63"
  have "unat (pack s m) = ((if s then 2 ^ 63 else 0) + m) mod 2 ^ 64"
    unfolding pack_def by (subst unat_of_nat) simp
  also have "\<dots> = (if s then 2 ^ 63 else 0) + m"
    using m by simp
  finally show ?thesis .
qed

lemma magnitude_pack: "m < 2 ^ 63 \<Longrightarrow> magnitude (pack s m) = m"
  by (simp add: magnitude_def unat_pack)

lemma sign_bit_pack: "m < 2 ^ 63 \<Longrightarrow> sign_bit (pack s m) = s"
  by (simp add: sign_bit_def unat_pack)

lemma magnitude_lt: "magnitude x < 2 ^ 63"
  by (simp add: magnitude_def)

subsection \<open>The length of a number in bits\<close>

lemma bit_len_le: "n < 2 ^ k \<Longrightarrow> bit_len n \<le> k"
proof (induction k arbitrary: n)
  case 0
  then show ?case by (simp add: bit_len.simps)
next
  case (Suc k)
  then have "n div 2 < 2 ^ k" by simp
  from Suc.IH [OF this] show ?case by (subst bit_len.simps) simp
qed

lemma bit_len_gt: "2 ^ k \<le> n \<Longrightarrow> k < bit_len n"
proof (induction k arbitrary: n)
  case 0
  then show ?case by (subst bit_len.simps) simp
next
  case (Suc k)
  then have "2 ^ k \<le> n div 2" by simp
  moreover have "(0::nat) < 2 ^ Suc k" by (rule zero_less_power) simp
  with Suc.prems have "n \<noteq> 0" by linarith
  ultimately show ?case using Suc.IH [of "n div 2"] by (subst bit_len.simps) simp
qed

lemma bit_len_eq: "2 ^ k \<le> n \<Longrightarrow> n < 2 ^ Suc k \<Longrightarrow> bit_len n = Suc k"
  using bit_len_le [of n "Suc k"] bit_len_gt [of k n] by simp

lemma bit_len_pos: "0 < n \<Longrightarrow> 0 < bit_len n"
  by (subst bit_len.simps) simp

lemma bit_len_bounds: "0 < n \<Longrightarrow> 2 ^ (bit_len n - 1) \<le> n \<and> n < 2 ^ bit_len n"
proof (induction n rule: bit_len.induct)
  case (1 n)
  show ?case
  proof (cases "n div 2 = 0")
    case True
    with "1.prems" have "n = 1" by (simp add: div_eq_0_iff) 
    then show ?thesis by (simp add: bit_len.simps)
  next
    case False
    with "1.IH" "1.prems" have ih: "2 ^ (bit_len (n div 2) - 1) \<le> n div 2 \<and> n div 2 < 2 ^ bit_len (n div 2)"
      by simp
    have pos: "0 < bit_len (n div 2)" using False by (subst bit_len.simps) simp
    have bl: "bit_len n = Suc (bit_len (n div 2))" using "1.prems" by (subst bit_len.simps) simp
    from pos have "(2::nat) ^ bit_len (n div 2) = 2 * 2 ^ (bit_len (n div 2) - 1)"
      by (cases "bit_len (n div 2)") simp_all
    with ih show ?thesis unfolding bl by (simp, linarith)
  qed
qed

lemma bit_len_mult_pow: "0 < n \<Longrightarrow> bit_len (n * 2 ^ k) = bit_len n + k"
proof -
  assume n: "0 < n"
  from bit_len_bounds [OF n] bit_len_pos [OF n]
  obtain l where l: "bit_len n = Suc l" and lo: "2 ^ l \<le> n" and hi: "n < 2 ^ Suc l"
    by (cases "bit_len n") auto
  have "2 ^ (l + k) \<le> n * 2 ^ k"
    using lo by (simp add: power_add)
  moreover have "n * 2 ^ k < 2 ^ Suc (l + k)"
    using hi by (simp add: power_add)
  ultimately have "bit_len (n * 2 ^ k) = Suc (l + k)"
    by (rule bit_len_eq)
  with l show ?thesis by simp
qed

subsection \<open>Decoding and rounding back\<close>

lemma mant_expo_subnormal: "m < 2 ^ 52 \<Longrightarrow> mant m = m \<and> expo m = 0"
  by (simp add: mant_def expo_def)

lemma mant_expo_normal:
  "2 ^ 52 \<le> m \<Longrightarrow> mant m = 2 ^ 52 + m mod 2 ^ 52 \<and> expo m = m div 2 ^ 52 - 1"
proof -
  assume "2 ^ 52 \<le> m"
  then have "m div 2 ^ 52 \<noteq> 0" by (simp add: div_eq_0_iff)
  then show ?thesis by (simp add: mant_def expo_def)
qed

lemma mant_eq_0_iff: "mant m = 0 \<longleftrightarrow> m = 0"
proof (cases "m < 2 ^ 52")
  case True
  then show ?thesis by (simp add: mant_expo_subnormal)
next
  case False
  then have "2 ^ 52 \<le> m" by simp
  from mant_expo_normal [OF this] False show ?thesis by auto
qed

lemma mant_bit_len_normal: "2 ^ 52 \<le> m \<Longrightarrow> bit_len (mant m) = 53"
proof -
  assume m: "2 ^ 52 \<le> m"
  have "m mod 2 ^ 52 < 2 ^ 52" by simp
  then have "2 ^ 52 \<le> mant m" and "mant m < 2 ^ Suc 52"
    using mant_expo_normal [OF m] by simp_all
  then have "bit_len (mant m) = Suc 52" by (rule bit_len_eq)
  then show ?thesis by simp
qed

lemma pack_mag_roundtrip: "m < inf_mag \<Longrightarrow> pack_mag (mant m) (expo m) = m"
proof (cases "m < 2 ^ 52")
  case True
  then have "bit_len m \<le> 52" by (rule bit_len_le)
  with True show ?thesis by (simp add: mant_expo_subnormal pack_mag_def Let_def)
next
  case False
  assume fin: "m < inf_mag"
  from False have m: "2 ^ 52 \<le> m" by simp
  define E where "E = m div 2 ^ 52"
  define f where "f = m mod 2 ^ 52"
  have split: "m = E * 2 ^ 52 + f" by (simp add: E_def f_def)
  have E: "1 \<le> E" using m by (simp add: E_def div_eq_0_iff Suc_le_eq)
  have me: "mant m = 2 ^ 52 + f" "expo m = E - 1"
    using mant_expo_normal [OF m] by (simp_all add: E_def f_def)
  have bl: "bit_len (mant m) = 53" using m by (rule mant_bit_len_normal)
  have nz: "mant m \<noteq> 0" using me by simp
  show ?thesis
  proof (cases "E = 1")
    case True
    with me bl nz split show ?thesis by (simp add: pack_mag_def Let_def)
  next
    case False
    with E have E2: "2 \<le> E" by simp
    then have "(E - 1) * 2 ^ 52 + (2 ^ 52 + f) = m"
      using split by (simp add: algebra_simps)
    with me bl nz E2 fin show ?thesis
      by (simp add: pack_mag_def Let_def)
  qed
qed

lemma magnitude_zero: "magnitude f64_zero = 0" "sign_bit f64_zero = False" "\<not> isNaN f64_zero"
  "\<not> isInf f64_zero"
  by (simp_all add: f64_zero_def magnitude_def sign_bit_def isNaN_def isInf_def inf_mag_def)

lemma pack_zero: "pack False 0 = f64_zero"
  by (simp add: pack_def f64_zero_def)

lemma expo_mant_zero: "expo 0 = 0" "mant 0 = 0"
  by (simp_all add: expo_def mant_def)

lemma f64_add_zero_left:
  assumes "\<not> isNaN v"
  shows "f64_add f64_zero v = (if magnitude v = 0 then f64_zero else v)"
proof (cases "isInf v")
  case True
  then have "magnitude v \<noteq> 0" by (simp add: isInf_def inf_mag_def)
  with True assms show ?thesis by (simp add: f64_add_def magnitude_zero)
next
  case False
  with assms have fin: "magnitude v < inf_mag" by (simp add: isNaN_def isInf_def)
  show ?thesis
  proof (cases "magnitude v = 0")
    case True
    then show ?thesis
      using assms False
      by (simp add: f64_add_def magnitude_zero expo_mant_zero signed_val_def pack_zero)
  next
    case nz: False
    then have mnz: "mant (magnitude v) \<noteq> 0" by (simp add: mant_eq_0_iff)
    have s: "signed_val False 0 + signed_val (sign_bit v) (mant (magnitude v)) \<noteq> 0"
      "(signed_val False 0 + signed_val (sign_bit v) (mant (magnitude v)) < 0) = sign_bit v"
      "nat \<bar>signed_val False 0 + signed_val (sign_bit v) (mant (magnitude v))\<bar> = mant (magnitude v)"
      using mnz by (simp_all add: signed_val_def)
    show ?thesis
      using assms False nz s
      by (simp add: f64_add_def magnitude_zero expo_mant_zero Let_def pack_mag_roundtrip [OF fin]
          pack_sign_magnitude)
  qed
qed

lemma f64_add_zero_right:
  assumes "\<not> isNaN v"
  shows "f64_add v f64_zero = (if magnitude v = 0 then f64_zero else v)"
proof (cases "isInf v")
  case True
  then have "magnitude v \<noteq> 0" by (simp add: isInf_def inf_mag_def)
  with True assms show ?thesis by (simp add: f64_add_def magnitude_zero)
next
  case False
  with assms have fin: "magnitude v < inf_mag" by (simp add: isNaN_def isInf_def)
  show ?thesis
  proof (cases "magnitude v = 0")
    case True
    then show ?thesis
      using assms False
      by (simp add: f64_add_def magnitude_zero expo_mant_zero signed_val_def pack_zero)
  next
    case nz: False
    then have mnz: "mant (magnitude v) \<noteq> 0" by (simp add: mant_eq_0_iff)
    have s: "signed_val (sign_bit v) (mant (magnitude v)) + signed_val False 0 \<noteq> 0"
      "(signed_val (sign_bit v) (mant (magnitude v)) + signed_val False 0 < 0) = sign_bit v"
      "nat \<bar>signed_val (sign_bit v) (mant (magnitude v)) + signed_val False 0\<bar> = mant (magnitude v)"
      using mnz by (simp_all add: signed_val_def)
    show ?thesis
      using assms False nz s
      by (simp add: f64_add_def magnitude_zero expo_mant_zero Let_def pack_mag_roundtrip [OF fin]
          pack_sign_magnitude)
  qed
qed

lemma magnitude_zero_cases: "magnitude v = 0 \<Longrightarrow> v = f64_zero \<or> v = f64_neg_zero"
proof -
  assume "magnitude v = 0"
  with pack_sign_magnitude [of v] have "v = pack (sign_bit v) 0" by simp
  then show ?thesis
    by (cases "sign_bit v") (simp_all add: f64_neg_zero_def pack_zero)
qed

lemma magnitude_neg_zero: "magnitude f64_neg_zero = 0"
  by (simp add: f64_neg_zero_def magnitude_pack)

lemma quiet_bound:
  fixes m :: nat
  assumes "m < 2 ^ 63" and "m div 2 ^ 51 mod 2 = 0"
  shows "m + 2 ^ 51 < 2 ^ 63"
proof -
  define q where "q = m div 2 ^ 51"
  have m: "m = q * 2 ^ 51 + m mod 2 ^ 51" by (simp add: q_def)
  have r: "m mod 2 ^ 51 < 2 ^ 51" by simp
  have "q < 4096" using assms(1) by (simp add: q_def less_mult_imp_div_less)
  moreover have "even q" using assms(2) by (simp add: q_def even_iff_mod_2_eq_zero)
  ultimately have "q \<le> 4094" by presburger
  then have "q * 2 ^ 51 \<le> 4094 * 2 ^ 51" by (rule mult_le_mono1)
  with m r show ?thesis by simp
qed

lemma isNaN_quiet: "isNaN x \<Longrightarrow> isNaN (quiet x)"
proof -
  assume nan: "isNaN x"
  define m' where "m' = (if magnitude x div 2 ^ 51 mod 2 = 0 then magnitude x + 2 ^ 51 else magnitude x)"
  have "m' < 2 ^ 63"
    using quiet_bound [OF magnitude_lt, of x] magnitude_lt [of x] by (simp add: m'_def)
  moreover have "quiet x = pack (sign_bit x) m'"
    by (simp add: quiet_def Let_def m'_def)
  ultimately have "magnitude (quiet x) = m'"
    by (simp only: magnitude_pack)
  moreover have "magnitude x \<le> m'" by (simp add: m'_def)
  ultimately show ?thesis using nan by (simp add: isNaN_def)
qed

lemma f64_add_NaN: "isNaN a \<or> isNaN b \<Longrightarrow> isNaN (f64_add a b)"
  by (auto simp: f64_add_def isNaN_quiet)

subsection \<open>Comparison and value\<close>

lemma scaled_mag_strict_mono:
  assumes "m < m'"
  shows "mant m * 2 ^ expo m < mant m' * 2 ^ expo m'"
proof -
  define E f where "E = m div 2 ^ 52" and "f = m mod 2 ^ 52"
  define E' f' where "E' = m' div 2 ^ 52" and "f' = m' mod 2 ^ 52"
  have f: "f < 2 ^ 52" and f': "f' < 2 ^ 52" by (simp_all add: f_def f'_def)
  have m: "m = E * 2 ^ 52 + f" and m': "m' = E' * 2 ^ 52 + f'"
    by (simp_all add: E_def f_def E'_def f'_def)
  have EE: "E \<le> E'" unfolding E_def E'_def using assms by (simp add: div_le_mono)
  have v: "mant m * 2 ^ expo m = (if E = 0 then f else (2 ^ 52 + f) * 2 ^ (E - 1))"
    by (simp add: mant_def expo_def E_def f_def)
  have v': "mant m' * 2 ^ expo m' = (if E' = 0 then f' else (2 ^ 52 + f') * 2 ^ (E' - 1))"
    by (simp add: mant_def expo_def E'_def f'_def)
  show ?thesis
  proof (cases "E = E'")
    case True
    with assms m m' have "f < f'" by simp
    with True show ?thesis unfolding v v' by simp
  next
    case False
    with EE have lt: "E < E'" by simp
    then have pos: "E' \<noteq> 0" by simp
    have low: "(2::nat) ^ 52 * 2 ^ (E' - 1) \<le> (2 ^ 52 + f') * 2 ^ (E' - 1)"
      by (rule mult_le_mono1) simp
    show ?thesis
    proof (cases "E = 0")
      case True
      have "f < 2 ^ 52 * 2 ^ (E' - 1)"
        using f by (metis less_le_trans mult.right_neutral mult_le_mono2 one_le_numeral one_le_power)
      from this low have "f < (2 ^ 52 + f') * 2 ^ (E' - 1)" by (rule less_le_trans)
      with True pos show ?thesis unfolding v v' by simp
    next
      case nz: False
      have "(2 ^ 52 + f) * 2 ^ (E - 1) < (2 ^ 52 + 2 ^ 52) * 2 ^ (E - 1)"
        using f by simp
      also have "\<dots> = 2 ^ 52 * 2 ^ E"
        using nz by (cases E) simp_all
      also have "\<dots> \<le> 2 ^ 52 * 2 ^ (E' - 1)"
        using lt by (intro mult_le_mono2 power_increasing) simp_all
      finally have "(2 ^ 52 + f) * 2 ^ (E - 1) < 2 ^ 52 * 2 ^ (E' - 1)" .
      from this low have "(2 ^ 52 + f) * 2 ^ (E - 1) < (2 ^ 52 + f') * 2 ^ (E' - 1)"
        by (rule less_le_trans)
      with nz pos show ?thesis unfolding v v' by simp
    qed
  qed
qed

lemma scaled_mag_mono_iff: "mant m * 2 ^ expo m < mant m' * 2 ^ expo m' \<longleftrightarrow> m < m'"
proof
  assume "m < m'"
  then show "mant m * 2 ^ expo m < mant m' * 2 ^ expo m'" by (rule scaled_mag_strict_mono)
next
  assume a: "mant m * 2 ^ expo m < mant m' * 2 ^ expo m'"
  show "m < m'"
  proof (rule ccontr)
    assume "\<not> m < m'"
    then have "m' < m \<or> m' = m" by auto
    with a scaled_mag_strict_mono [of m' m] show False by auto
  qed
qed

text \<open>
  The order of the bit patterns is the order of the numbers: for operands that are not
  NaN, \<open>a < b\<close> holds exactly when the value of \<open>a\<close> is below the value of \<open>b\<close>
  (both scaled by \<open>2 ^ 1074\<close>, infinity counting as \<open>2 ^ 1024\<close>).
\<close>

lemma f64_lt_iff_value:
  assumes "\<not> isNaN a" and "\<not> isNaN b"
  shows "f64_lt a b \<longleftrightarrow>
         signed_val (sign_bit a) (mant (magnitude a) * 2 ^ expo (magnitude a)) <
         signed_val (sign_bit b) (mant (magnitude b) * 2 ^ expo (magnitude b))"
proof -
  define va where "va = mant (magnitude a) * 2 ^ expo (magnitude a)"
  define vb where "vb = mant (magnitude b) * 2 ^ expo (magnitude b)"
  have lt: "va < vb \<longleftrightarrow> magnitude a < magnitude b"
    and gt: "vb < va \<longleftrightarrow> magnitude b < magnitude a"
    unfolding va_def vb_def by (rule scaled_mag_mono_iff)+
  have za: "va = 0 \<longleftrightarrow> magnitude a = 0" and zb: "vb = 0 \<longleftrightarrow> magnitude b = 0"
    unfolding va_def vb_def by (simp_all add: mant_eq_0_iff)
  show ?thesis
    unfolding va_def [symmetric] vb_def [symmetric]
    using assms lt gt za zb
    by (cases "sign_bit a"; cases "sign_bit b")
      (auto simp: f64_lt_def key_def signed_val_def)
qed

subsection \<open>Rounding depends on the number only\<close>

lemma round_half_even_exact: "0 < d \<Longrightarrow> round_half_even (q * d) d = q"
  by (simp add: round_half_even_def)

lemma round_half_even_scale:
  assumes "0 < c" and "0 < d"
  shows "round_half_even (n * c) (d * c) = round_half_even n d"
proof -
  have q: "(n * c) div (d * c) = n div d" using assms by simp
  have r: "(n * c) mod (d * c) = (n mod d) * c" using assms by simp
  have lt: "2 * ((n mod d) * c) < d * c \<longleftrightarrow> 2 * (n mod d) < d"
    using assms(1) by (metis mult.assoc mult_less_cancel2)
  have gt: "d * c < 2 * ((n mod d) * c) \<longleftrightarrow> d < 2 * (n mod d)"
    using assms(1) by (metis mult.assoc mult_less_cancel2)
  show ?thesis
    unfolding round_half_even_def Let_def q r lt gt ..
qed

lemma pack_mag_0: "pack_mag 0 e = 0"
  by (simp add: pack_mag_def)

lemma pack_mag_shift: "pack_mag (n * 2 ^ k) e = pack_mag n (e + k)"
proof (cases "n = 0")
  case True
  then show ?thesis by (simp add: pack_mag_0)
next
  case False
  then have n: "0 < n" by simp
  define l where "l = bit_len n"
  have bl: "bit_len (n * 2 ^ k) = l + k"
    using bit_len_mult_pow [OF n] by (simp add: l_def)
  have nk: "n * 2 ^ k \<noteq> 0" using n by simp
  show ?thesis
  proof (cases "l + k + e \<le> 53")
    case True
    then have "l + (e + k) \<le> 53" by simp
    with True n nk show ?thesis
      unfolding pack_mag_def Let_def bl l_def [symmetric]
      by (simp add: power_add mult.assoc mult.left_commute)
  next
    case big: False
    have inner: "(if l + k \<le> 53 then n * 2 ^ k * 2 ^ (53 - (l + k))
                  else round_half_even (n * 2 ^ k) (2 ^ (l + k - 53))) =
                 (if l \<le> 53 then n * 2 ^ (53 - l) else round_half_even n (2 ^ (l - 53)))"
    proof (cases "l + k \<le> 53")
      case True
      then have "53 - l = k + (53 - (l + k))" by simp
      then have "(2::nat) ^ (53 - l) = 2 ^ k * 2 ^ (53 - (l + k))"
        by (simp only: power_add)
      with True show ?thesis by (simp add: mult.assoc)
    next
      case False
      show ?thesis
      proof (cases "l \<le> 53")
        case True
        with False have "k = (53 - l) + (l + k - 53)" by simp
        then have "(2::nat) ^ k = 2 ^ (53 - l) * 2 ^ (l + k - 53)"
          by (metis power_add)
        then have "n * 2 ^ k = (n * 2 ^ (53 - l)) * 2 ^ (l + k - 53)"
          by (simp add: mult.assoc)
        then have "round_half_even (n * 2 ^ k) (2 ^ (l + k - 53)) = n * 2 ^ (53 - l)"
          by (simp only: round_half_even_exact zero_less_power zero_less_numeral)
        with False True show ?thesis by simp
      next
        case l: False
        then have "l + k - 53 = (l - 53) + k" by simp
        then have "(2::nat) ^ (l + k - 53) = 2 ^ (l - 53) * 2 ^ k"
          by (simp only: power_add)
        then have "round_half_even (n * 2 ^ k) (2 ^ (l + k - 53)) = round_half_even n (2 ^ (l - 53))"
          by (simp only: round_half_even_scale zero_less_power zero_less_numeral)
        with False l show ?thesis by simp
      qed
    qed
    from big have big': "\<not> l + (e + k) \<le> 53" by simp
    have ex: "l + k + e - 53 = l + (e + k) - 53" by simp
    show ?thesis
      unfolding pack_mag_def Let_def bl l_def [symmetric]
      using n nk big big' inner by (simp add: ex)
  qed
qed

subsection \<open>Integers below \<open>2 ^ 53\<close> are added exactly\<close>

lemma pack_mag_int_exact:
  fixes n :: nat
  assumes "0 < n" and "n < 2 ^ 53"
  defines "M \<equiv> pack_mag n 1074"
  shows "M < inf_mag" and "M \<noteq> 0" and "expo M \<le> 1074"
    and "mant M * 2 ^ expo M = n * 2 ^ 1074"
proof -
  define l where "l = bit_len n"
  have l53: "l \<le> 53" unfolding l_def using assms(2) by (rule bit_len_le)
  have l1: "1 \<le> l" unfolding l_def using bit_len_pos [OF assms(1)] by simp
  define q where "q = n * 2 ^ (53 - l)"
  from bit_len_bounds [OF assms(1)] have lo: "2 ^ (l - 1) \<le> n" and hi: "n < 2 ^ l"
    by (simp_all add: l_def)
  have e1: "(l - 1) + (53 - l) = 52" and e2: "l + (53 - l) = 53" using l53 l1 by simp_all
  have "2 ^ (l - 1) * 2 ^ (53 - l) \<le> q" unfolding q_def using lo by (rule mult_le_mono1)
  then have qlo: "2 ^ 52 \<le> q" by (simp only: power_add [symmetric] e1)
  have "q < 2 ^ l * 2 ^ (53 - l)" unfolding q_def using hi by simp
  then have qhi: "q < 2 ^ 53" by (simp only: power_add [symmetric] e2)
  have M: "M = (l + 1021) * 2 ^ 52 + q"
  proof -
    have "(l + 1021) * 2 ^ 52 + q < inf_mag"
    proof -
      have "(l + 1021) * 2 ^ 52 \<le> 1074 * (2 ^ 52 :: nat)"
        using l53 by (intro mult_le_mono1) simp
      with qhi show ?thesis by (simp add: inf_mag_def)
    qed
    moreover have "l + 1074 - 53 = l + 1021" by simp
    ultimately show ?thesis
      using assms(1) l53 unfolding M_def pack_mag_def Let_def l_def [symmetric] q_def [symmetric]
      by simp
  qed
  have div: "M div 2 ^ 52 = l + 1022"
  proof -
    have "q div 2 ^ 52 = 1" using qlo qhi by (simp add: div_nat_eqI)
    then show ?thesis unfolding M by simp
  qed
  have mod: "M mod 2 ^ 52 = q - 2 ^ 52"
  proof -
    have "q mod 2 ^ 52 = q - 2 ^ 52" using qlo qhi by (simp add: mod_if)
    moreover have "M mod 2 ^ 52 = q mod 2 ^ 52" unfolding M by (rule mod_mult_self3)
    ultimately show ?thesis by simp
  qed
  have mant: "mant M = q" using qlo div mod by (simp add: mant_def)
  have expo: "expo M = l + 1021" using div by (simp add: expo_def)
  show "M < inf_mag"
  proof -
    have "(l + 1021) * 2 ^ 52 \<le> 1074 * (2 ^ 52 :: nat)"
      using l53 by (intro mult_le_mono1) simp
    with qhi show ?thesis unfolding M by (simp add: inf_mag_def)
  qed
  show "M \<noteq> 0" unfolding M using qlo by simp
  show "expo M \<le> 1074" using l53 by (simp add: expo)
  have e3: "(53 - l) + (l + 1021) = 1074" using l53 by simp
  have "mant M * 2 ^ expo M = n * (2 ^ (53 - l) * 2 ^ (l + 1021))"
    by (simp only: mant expo q_def mult.assoc)
  also have "\<dots> = n * 2 ^ 1074"
    by (simp only: power_add [symmetric] e3)
  finally show "mant M * 2 ^ expo M = n * 2 ^ 1074" .
qed

lemma f64_of_int_0: "f64_of_int 0 = f64_zero"
  by (simp add: f64_of_int_def pack_mag_0 pack_zero)

lemma inf_mag_lt: "inf_mag < 2 ^ 63"
  by (simp add: inf_mag_def)

lemma f64_of_int_decode:
  assumes "i \<noteq> 0" and "\<bar>i\<bar> < 2 ^ 53"
  defines "M \<equiv> magnitude (f64_of_int i)"
  shows "sign_bit (f64_of_int i) = (i < 0)" and "M < inf_mag" and "M \<noteq> 0" and "expo M \<le> 1074"
    and "int (mant M * 2 ^ expo M) = \<bar>i\<bar> * 2 ^ 1074"
proof -
  define n where "n = nat \<bar>i\<bar>"
  have n: "0 < n" "n < 2 ^ 53" using assms(1,2) by (simp_all add: n_def nat_less_iff)
  note ex = pack_mag_int_exact [OF n]
  have lt: "pack_mag n 1074 < 2 ^ 63" using ex(1) inf_mag_lt by simp
  have M: "M = pack_mag n 1074"
    unfolding M_def f64_of_int_def n_def [symmetric] using lt by (rule magnitude_pack)
  show "sign_bit (f64_of_int i) = (i < 0)"
    unfolding f64_of_int_def n_def [symmetric] using lt by (rule sign_bit_pack)
  show "M < inf_mag" "M \<noteq> 0" "expo M \<le> 1074" unfolding M by (rule ex)+
  have "int (mant M * 2 ^ expo M) = int (n * 2 ^ 1074)" unfolding M by (simp only: ex(4))
  also have "\<dots> = \<bar>i\<bar> * 2 ^ 1074" by (simp add: n_def del: power_numeral)
  finally show "int (mant M * 2 ^ expo M) = \<bar>i\<bar> * 2 ^ 1074" .
qed

lemma signed_val_scaled:
  assumes "e \<le> expo M" and "int (mant M * 2 ^ expo M) = \<bar>i\<bar> * K"
  shows "signed_val (i < 0) (mant M * 2 ^ (expo M - e)) * 2 ^ e = i * K"
proof -
  from assms(1) have "expo M = (expo M - e) + e" by simp
  then have "(2::nat) ^ expo M = 2 ^ (expo M - e) * 2 ^ e" by (metis power_add)
  then have "int (mant M * 2 ^ (expo M - e)) * 2 ^ e = int (mant M * 2 ^ expo M)"
    by (simp add: mult.assoc)
  with assms(2) have "int (mant M * 2 ^ (expo M - e)) * 2 ^ e = \<bar>i\<bar> * K" by simp
  then show ?thesis
    by (cases "i < 0") (simp_all add: signed_val_def)
qed

lemma f64_add_int_exact:
  assumes "\<bar>i\<bar> < 2 ^ 53" and "\<bar>j\<bar> < 2 ^ 53" and "\<bar>i + j\<bar> < 2 ^ 53"
  shows "f64_add (f64_of_int i) (f64_of_int j) = f64_of_int (i + j)"
proof -
  have nan: "\<not> isNaN (f64_of_int k)" and inf: "\<not> isInf (f64_of_int k)" if "\<bar>k\<bar> < 2 ^ 53" for k
  proof -
    have "magnitude (f64_of_int k) < inf_mag"
    proof (cases "k = 0")
      case True
      then show ?thesis by (simp add: f64_of_int_0 magnitude_zero inf_mag_def)
    next
      case False
      from f64_of_int_decode(2) [OF False that] show ?thesis .
    qed
    then show "\<not> isNaN (f64_of_int k)" "\<not> isInf (f64_of_int k)"
      by (simp_all add: isNaN_def isInf_def)
  qed
  show ?thesis
  proof (cases "i = 0 \<or> j = 0")
    case True
    then show ?thesis
    proof
      assume i: "i = 0"
      show ?thesis
      proof (cases "j = 0")
        case True
        with i show ?thesis by (simp add: f64_of_int_0 f64_add_zero_left magnitude_zero)
      next
        case False
        from f64_of_int_decode(3) [OF False assms(2)] i nan [OF assms(2)] show ?thesis
          by (simp add: f64_of_int_0 f64_add_zero_left)
      qed
    next
      assume j: "j = 0"
      show ?thesis
      proof (cases "i = 0")
        case True
        with j show ?thesis by (simp add: f64_of_int_0 f64_add_zero_left magnitude_zero)
      next
        case False
        from f64_of_int_decode(3) [OF False assms(1)] j nan [OF assms(1)] show ?thesis
          by (simp add: f64_of_int_0 f64_add_zero_right)
      qed
    qed
  next
    case False
    then have i: "i \<noteq> 0" and j: "j \<noteq> 0" by simp_all
    define A where "A = magnitude (f64_of_int i)"
    define B where "B = magnitude (f64_of_int j)"
    define K :: int where "K = 2 ^ 1074"
    note da = f64_of_int_decode [OF i assms(1), folded A_def K_def]
    note db = f64_of_int_decode [OF j assms(2), folded B_def K_def]
    define e where "e = min (expo A) (expo B)"
    define s where "s = signed_val (i < 0) (mant A * 2 ^ (expo A - e)) +
                        signed_val (j < 0) (mant B * 2 ^ (expo B - e))"
    have ea: "e \<le> expo A" and eb: "e \<le> expo B" and e1074: "e \<le> 1074"
      using da(4) by (simp_all add: e_def)
    have unfold: "f64_add (f64_of_int i) (f64_of_int j) =
        (if s = 0 then pack (i < 0 \<and> j < 0) 0 else pack (s < 0) (pack_mag (nat \<bar>s\<bar>) e))"
      using nan [OF assms(1)] nan [OF assms(2)] inf [OF assms(1)] inf [OF assms(2)]
        f64_of_int_decode(1,3) [OF i assms(1)] f64_of_int_decode(1,3) [OF j assms(2)]
      unfolding s_def e_def A_def B_def
      by (simp add: f64_add_def Let_def)
    have Kpos: "0 < K" by (simp add: K_def)
    have P: "(0::int) < 2 ^ e" by simp
    have sK: "s * 2 ^ e = (i + j) * K"
      unfolding s_def
      using signed_val_scaled [OF ea da(5)] signed_val_scaled [OF eb db(5)]
      by (simp add: distrib_right distrib_left)
    show ?thesis
    proof (cases "i + j = 0")
      case True
      with sK have s0: "s = 0" by simp
      from True i have "(i < 0 \<and> j < 0) = False" by auto
      then have "pack (i < 0 \<and> j < 0) 0 = f64_zero" by (simp only: pack_zero)
      then show ?thesis
        by (simp add: unfold s0 True f64_of_int_0)
    next
      case nz: False
      with sK Kpos have s0: "s \<noteq> 0" by auto
      have sign: "(s < 0) = (i + j < 0)"
      proof -
        have "(s * 2 ^ e < 0) = (s < 0)" using P by (simp add: mult_less_0_iff)
        moreover have "((i + j) * K < 0) = (i + j < 0)" using Kpos by (simp add: mult_less_0_iff)
        ultimately show ?thesis using sK by simp
      qed
      have "\<bar>s\<bar> * 2 ^ e = \<bar>i + j\<bar> * K"
        using sK Kpos by (metis abs_mult abs_of_pos P)
      moreover have "K = 2 ^ (1074 - e) * 2 ^ e"
      proof -
        from e1074 have "1074 = (1074 - e) + e" by simp
        then have "(2::int) ^ 1074 = 2 ^ (1074 - e) * 2 ^ e" by (metis power_add)
        then show ?thesis by (simp only: K_def)
      qed
      ultimately have "\<bar>s\<bar> * 2 ^ e = (\<bar>i + j\<bar> * 2 ^ (1074 - e)) * 2 ^ e"
        by (simp only: mult.assoc)
      then have "\<bar>s\<bar> = \<bar>i + j\<bar> * 2 ^ (1074 - e)"
        using P by simp
      then have "nat \<bar>s\<bar> = nat \<bar>i + j\<bar> * 2 ^ (1074 - e)"
        by (simp add: nat_mult_distrib nat_power_eq)
      then have "pack_mag (nat \<bar>s\<bar>) e = pack_mag (nat \<bar>i + j\<bar>) (e + (1074 - e))"
        by (simp only: pack_mag_shift)
      also have "e + (1074 - e) = 1074" using e1074 by simp
      finally have pm: "pack_mag (nat \<bar>s\<bar>) e = pack_mag (nat \<bar>i + j\<bar>) 1074" .
      have rhs: "f64_of_int (i + j) = pack (i + j < 0) (pack_mag (nat \<bar>i + j\<bar>) 1074)"
        by (simp add: f64_of_int_def)
      show ?thesis
        unfolding unfold rhs using s0 sign pm by simp
    qed
  qed
qed

subsection \<open>The model on known values\<close>

lemma f64_known_values:
  "f64_of_int 12 = 0x4028000000000000"
  "f64_of_int (- 3) = 0xC008000000000000"
  "f64_of_int (2 ^ 53 + 1) = 0x4340000000000000"
  "f64_add 0x3FB999999999999A 0x3FC999999999999A = 0x3FD3333333333334"
  "f64_add 0x7FEFFFFFFFFFFFFF 0x7FEFFFFFFFFFFFFF = 0x7FF0000000000000"
  "f64_add 0x4028000000000000 0xC028000000000000 = f64_zero"
  "f64_to_int 0x4029666666666666 = 12"
  "f64_to_int 0xC029666666666666 = - 12"
  "fmt_f 0x3FB999999999999A = ''0.100000''"
  "fmt_f 0x3F80000000000000 = ''0.007812''"
  "fmt_f 0xC029666666666666 = ''-12.700000''"
  "fmt_f 0x7FF0000000000000 = ''+Inf''"
  by (simp_all add: f64_eval_defs)


section \<open>The result emitter\<close>

text \<open>
  C3. For every status and message, \<^verbatim>\<open>output\<close> writes the message behind the prefix of
  the status (\<open>OK - \<close> for 0, \<open>WARNING - \<close> for 1, \<open>CRITICAL - \<close> for 2 and
  \<open>UNKNOWN - \<close> for 3 and for every other status), ends it with the one newline of
  \<^verbatim>\<open>Println\<close>, so that it writes one line more than the message has line breaks, and
  exits with the status as exit code; the four constants are 0, 1, 2 and 3.
\<close>

theorem output_prefix_line_and_exit_code:
  "stdout (output_go status message) =
     (if status = 0 then ''OK - ''
      else if status = 1 then ''WARNING - ''
      else if status = 2 then ''CRITICAL - ''
      else ''UNKNOWN - '') @ message @ [CHR 0x0A]
   \<and> count_list (stdout (output_go status message)) (CHR 0x0A) = Suc (count_list message (CHR 0x0A))
   \<and> code (output_go status message) = status
   \<and> OK = 0 \<and> WARNING = 1 \<and> CRITICAL = 2 \<and> UNKNOWN = 3"
  by (simp add: output_go_def prefix_of_def Println_def OK_def WARNING_def CRITICAL_def UNKNOWN_def)

theorem output_prefix_line_and_exit_code_witness:
  "stdout (output_go 2 ''disk full'') = ''CRITICAL - disk full'' @ [CHR 0x0A]
   \<and> code (output_go 2 ''disk full'') = 2
   \<and> stdout (output_go 7 ''x'') = ''UNKNOWN - x'' @ [CHR 0x0A]
   \<and> code (output_go 7 ''x'') = 7"
  using output_prefix_line_and_exit_code [of 2 "''disk full''"]
    output_prefix_line_and_exit_code [of 7 "''x''"]
  by simp

section \<open>The aggregation\<close>

lemma fold_max_step_negative:
  "\<forall>p \<in> set points. f64_lt (getFloatValue vt (GetValue p)) f64_zero \<Longrightarrow>
   fold (max_step vt) points f64_zero = f64_zero"
  by (induction points) (simp_all add: max_step_def)

text \<open>
  C5. \<^verbatim>\<open>MAX\<close> scans the points with a running maximum that starts at \<open>0.0\<close>; for a
  non-empty series whose normalized values are all below zero it returns \<open>0.0\<close>.
\<close>

theorem max_of_negative_series_is_zero:
  assumes "points \<noteq> []"
    and "\<forall>p \<in> set points. f64_lt (getFloatValue vt (GetValue p)) f64_zero"
  shows "evaluate ''MAX'' vt points = Inr (fold (max_step vt) points f64_zero)
         \<and> evaluate ''MAX'' vt points = Inr f64_zero"
  using assms(2) by (simp add: evaluate_def fold_max_step_negative)

theorem max_of_negative_series_is_zero_witness:
  "f64_lt (getFloatValue ''DOUBLE'' (GetValue (Some (Point (Some (DoubleValue 0xBFF0000000000000))))))
     f64_zero
   \<and> f64_lt (getFloatValue ''DOUBLE'' (GetValue (Some (Point (Some (DoubleValue 0xC004000000000000))))))
       f64_zero
   \<and> evaluate ''MAX'' ''DOUBLE''
        [Some (Point (Some (DoubleValue 0xBFF0000000000000))),
         Some (Point (Some (DoubleValue 0xC004000000000000)))] = Inr f64_zero"
proof -
  let ?ps = "[Some (Point (Some (DoubleValue 0xBFF0000000000000))),
              Some (Point (Some (DoubleValue 0xC004000000000000)))]"
  have h1: "?ps \<noteq> []" by simp
  have h2: "\<forall>p \<in> set ?ps. f64_lt (getFloatValue ''DOUBLE'' (GetValue p)) f64_zero"
    by (simp add: getFloatValue_def GetValue_def GetDoubleValue_def f64_cmp_defs)
  from max_of_negative_series_is_zero [OF h1 h2, THEN conjunct2] h2 show ?thesis
    by simp
qed

text \<open>
  C8. On the empty sequence \<^verbatim>\<open>SUM\<close> and \<^verbatim>\<open>MAX\<close> return \<open>0.0\<close>; a policy other than
  \<^verbatim>\<open>LAST\<close>, \<^verbatim>\<open>SUM\<close> and \<^verbatim>\<open>MAX\<close> returns \<open>0.0\<close> on every sequence; \<^verbatim>\<open>LAST\<close> on the
  empty sequence indexes out of range, and this is the only case in which \<^verbatim>\<open>evaluate\<close>
  returns no value.
\<close>

theorem evaluate_empty_and_unknown_policy:
  "evaluate ''SUM'' vt [] = Inr f64_zero
   \<and> evaluate ''MAX'' vt [] = Inr f64_zero
   \<and> (et \<noteq> ''LAST'' \<and> et \<noteq> ''SUM'' \<and> et \<noteq> ''MAX'' \<longrightarrow> evaluate et vt points = Inr f64_zero)
   \<and> evaluate ''LAST'' vt [] = Inl IndexOutOfRange
   \<and> ((\<exists>v. evaluate et vt points = Inr v) \<longleftrightarrow> \<not> (et = ''LAST'' \<and> points = []))"
  by (cases points) (simp_all add: evaluate_def)

theorem evaluate_empty_and_unknown_policy_witness:
  "''AVG'' \<noteq> ''LAST'' \<and> ''AVG'' \<noteq> ''SUM'' \<and> ''AVG'' \<noteq> ''MAX''
   \<and> evaluate ''AVG'' ''DOUBLE'' [Some (Point (Some (DoubleValue 0x4028000000000000)))] = Inr 0
   \<and> evaluate ''LAST'' ''DOUBLE'' [] = Inl IndexOutOfRange
   \<and> evaluate ''SUM'' ''DOUBLE'' [] = Inr 0"
  using evaluate_empty_and_unknown_policy
    [of "''DOUBLE''" "''AVG''" "[Some (Point (Some (DoubleValue 0x4028000000000000)))]"]
  by (simp add: f64_zero_def)

lemma getFloatValue_example:
  "getFloatValue ''DOUBLE'' (GetValue (Some (Point (Some (DoubleValue d))))) = d"
  by (simp add: getFloatValue_def GetValue_def GetDoubleValue_def)

text \<open>
  C4, as the claim states it, fails: under \<^verbatim>\<open>MAX\<close> the one-point series \<open>-1.0\<close>
  gives \<open>0.0\<close>, not \<open>-1.0\<close>.
\<close>

theorem single_point_max_negative_counterexample:
  "evaluate ''MAX'' ''DOUBLE'' [Some (Point (Some (DoubleValue 0xBFF0000000000000)))] = Inr f64_zero
   \<and> getFloatValue ''DOUBLE'' (GetValue (Some (Point (Some (DoubleValue 0xBFF0000000000000)))))
       = 0xBFF0000000000000
   \<and> evaluate ''MAX'' ''DOUBLE'' [Some (Point (Some (DoubleValue 0xBFF0000000000000)))] \<noteq>
       Inr (getFloatValue ''DOUBLE'' (GetValue (Some (Point (Some (DoubleValue 0xBFF0000000000000))))))"
  by (simp add: evaluate_def max_step_def getFloatValue_example f64_cmp_defs)


text \<open>
  C4, amended. For every value type and every series of one point with normalized value
  \<open>v\<close>: \<^verbatim>\<open>LAST\<close> returns \<open>v\<close>; \<^verbatim>\<open>SUM\<close> returns \<open>0.0 + v\<close>, which is \<open>v\<close> unless
  \<open>v\<close> is \<open>-0.0\<close> (the sum is \<open>+0.0\<close>) or a NaN (the sum is a NaN); \<^verbatim>\<open>MAX\<close>
  returns \<open>v\<close> unless \<open>v < 0.0\<close>, where it returns \<open>0.0\<close>.
\<close>

theorem single_point_aggregation:
  "evaluate ''LAST'' vt [p] = Inr (getFloatValue vt (GetValue p))
   \<and> evaluate ''SUM'' vt [p] = Inr (f64_add f64_zero (getFloatValue vt (GetValue p)))
   \<and> (\<not> isNaN (getFloatValue vt (GetValue p)) \<and> getFloatValue vt (GetValue p) \<noteq> f64_neg_zero \<longrightarrow>
        evaluate ''SUM'' vt [p] = Inr (getFloatValue vt (GetValue p)))
   \<and> (getFloatValue vt (GetValue p) = f64_neg_zero \<longrightarrow> evaluate ''SUM'' vt [p] = Inr f64_zero)
   \<and> (isNaN (getFloatValue vt (GetValue p)) \<longrightarrow>
        (\<exists>r. evaluate ''SUM'' vt [p] = Inr r \<and> isNaN r))
   \<and> (\<not> f64_lt (getFloatValue vt (GetValue p)) f64_zero \<longrightarrow>
        evaluate ''MAX'' vt [p] = Inr (getFloatValue vt (GetValue p)))
   \<and> (f64_lt (getFloatValue vt (GetValue p)) f64_zero \<longrightarrow> evaluate ''MAX'' vt [p] = Inr f64_zero)"
proof -
  define v where "v = getFloatValue vt (GetValue p)"
  have last: "evaluate ''LAST'' vt [p] = Inr v"
    by (simp add: evaluate_def v_def)
  have sum: "evaluate ''SUM'' vt [p] = Inr (f64_add f64_zero v)"
    by (simp add: evaluate_def sum_step_def v_def)
  have max: "evaluate ''MAX'' vt [p] = Inr (if f64_lt v f64_zero then f64_zero else v)"
    by (simp add: evaluate_def max_step_def v_def)
  have s1: "f64_add f64_zero v = v" if "\<not> isNaN v" and "v \<noteq> f64_neg_zero"
    using that f64_add_zero_left [of v] magnitude_zero_cases [of v] by auto
  have s2: "f64_add f64_zero v = f64_zero" if "v = f64_neg_zero"
  proof -
    have "\<not> isNaN f64_neg_zero" by (simp add: isNaN_def magnitude_neg_zero inf_mag_def)
    from f64_add_zero_left [OF this] that show ?thesis by (simp add: magnitude_neg_zero)
  qed
  have s3: "isNaN (f64_add f64_zero v)" if "isNaN v"
    using that by (simp add: f64_add_NaN)
  show ?thesis
    unfolding v_def [symmetric] using last sum max s1 s2 s3 by simp
qed


theorem single_point_aggregation_witness:
  "\<not> isNaN 0x4028000000000000 \<and> 0x4028000000000000 \<noteq> f64_neg_zero
   \<and> \<not> f64_lt 0x4028000000000000 f64_zero
   \<and> evaluate ''LAST'' ''DOUBLE'' [Some (Point (Some (DoubleValue 0x4028000000000000)))]
       = Inr 0x4028000000000000
   \<and> evaluate ''SUM'' ''DOUBLE'' [Some (Point (Some (DoubleValue 0x4028000000000000)))]
       = Inr 0x4028000000000000
   \<and> evaluate ''MAX'' ''DOUBLE'' [Some (Point (Some (DoubleValue 0x4028000000000000)))]
       = Inr 0x4028000000000000
   \<and> f64_lt 0xBFF0000000000000 f64_zero
   \<and> evaluate ''MAX'' ''DOUBLE'' [Some (Point (Some (DoubleValue 0xBFF0000000000000)))] = Inr f64_zero
   \<and> evaluate ''SUM'' ''DOUBLE'' [Some (Point (Some (DoubleValue f64_neg_zero)))] = Inr f64_zero"
proof -
  have a: "\<not> isNaN 0x4028000000000000" "0x4028000000000000 \<noteq> f64_neg_zero"
    "\<not> f64_lt 0x4028000000000000 f64_zero" "f64_lt 0xBFF0000000000000 f64_zero"
    by (simp_all add: f64_cmp_defs f64_neg_zero_def pack_def)
  note t1 = single_point_aggregation
    [of "''DOUBLE''" "Some (Point (Some (DoubleValue 0x4028000000000000)))",
      unfolded getFloatValue_example]
  note t2 = single_point_aggregation
    [of "''DOUBLE''" "Some (Point (Some (DoubleValue 0xBFF0000000000000)))",
      unfolded getFloatValue_example]
  note t3 = single_point_aggregation
    [of "''DOUBLE''" "Some (Point (Some (DoubleValue f64_neg_zero)))",
      unfolded getFloatValue_example]
  from t1 t2 t3 a show ?thesis
    by blast
qed

lemma getFloatValue_INT64:
  "getFloatValue ''INT64'' t = f64_of_int (sint (GetInt64Value t))"
  by (simp add: getFloatValue_def f64_of_int64_def)

lemma fold_sum_step_int_exact:
  "\<bar>a\<bar> + (\<Sum>p\<leftarrow>points. \<bar>sint (GetInt64Value (GetValue p))\<bar>) < 2 ^ 53 \<Longrightarrow>
   fold (sum_step ''INT64'') points (f64_of_int a) =
     f64_of_int (a + (\<Sum>p\<leftarrow>points. sint (GetInt64Value (GetValue p))))"
proof (induction points arbitrary: a)
  case Nil
  then show ?case by simp
next
  case (Cons p points)
  define x where "x = sint (GetInt64Value (GetValue p))"
  define r where "r = (\<Sum>p\<leftarrow>points. \<bar>sint (GetInt64Value (GetValue p))\<bar>)"
  have r0: "0 \<le> r" unfolding r_def by (rule sum_list_nonneg) auto
  from Cons.prems have bound: "\<bar>a\<bar> + \<bar>x\<bar> + r < 2 ^ 53"
    by (simp add: x_def r_def)
  have "\<bar>a\<bar> < 2 ^ 53" "\<bar>x\<bar> < 2 ^ 53" "\<bar>a + x\<bar> < 2 ^ 53"
    using bound r0 by linarith+
  then have step: "sum_step ''INT64'' p (f64_of_int a) = f64_of_int (a + x)"
    by (simp add: sum_step_def getFloatValue_INT64 x_def [symmetric] f64_add_int_exact)
  have "\<bar>a + x\<bar> + r < 2 ^ 53" using bound by linarith
  from Cons.IH [OF this [unfolded r_def]] show ?case
    by (simp add: step x_def add.assoc)
qed

lemma sum_list_map_mset_cong:
  fixes f :: "'a \<Rightarrow> int"
  assumes "mset xs = mset ys"
  shows "sum_list (map f xs) = sum_list (map f ys)"
proof -
  have "sum_list (map f xs) = sum_mset (image_mset f (mset xs))"
    by (simp add: sum_mset_sum_list [symmetric])
  also have "\<dots> = sum_mset (image_mset f (mset ys))" by (simp only: assms)
  also have "\<dots> = sum_list (map f ys)"
    by (simp add: sum_mset_sum_list [symmetric])
  finally show ?thesis .
qed

lemma evaluate_sum_int_exact:
  assumes "(\<Sum>p\<leftarrow>points. \<bar>sint (GetInt64Value (GetValue p))\<bar>) < 2 ^ 53"
  shows "evaluate ''SUM'' ''INT64'' points =
           Inr (f64_of_int (\<Sum>p\<leftarrow>points. sint (GetInt64Value (GetValue p))))"
  using fold_sum_step_int_exact [of 0 points] assms
  by (simp add: evaluate_def f64_of_int_0)

text \<open>
  C6, as the claim states it, fails: float64 addition rounds, so the sum depends on the
  order. The \<^verbatim>\<open>INT64\<close> points \<open>2 ^ 53, 1, 1\<close> sum to \<open>2 ^ 53\<close> in this order and to
  \<open>2 ^ 53 + 2\<close> in the order \<open>1, 1, 2 ^ 53\<close>.
\<close>

theorem sum_order_dependent_counterexample:
  "mset [Some (Point (Some (Int64Value 9007199254740992))), Some (Point (Some (Int64Value 1))),
         Some (Point (Some (Int64Value 1)))]
     = mset [Some (Point (Some (Int64Value 1))), Some (Point (Some (Int64Value 1))),
             Some (Point (Some (Int64Value 9007199254740992)))]
   \<and> evaluate ''SUM'' ''INT64''
        [Some (Point (Some (Int64Value 9007199254740992))), Some (Point (Some (Int64Value 1))),
         Some (Point (Some (Int64Value 1)))] = Inr 0x4340000000000000
   \<and> evaluate ''SUM'' ''INT64''
        [Some (Point (Some (Int64Value 1))), Some (Point (Some (Int64Value 1))),
         Some (Point (Some (Int64Value 9007199254740992)))] = Inr 0x4340000000000001
   \<and> evaluate ''SUM'' ''INT64''
        [Some (Point (Some (Int64Value 9007199254740992))), Some (Point (Some (Int64Value 1))),
         Some (Point (Some (Int64Value 1)))]
     \<noteq> evaluate ''SUM'' ''INT64''
        [Some (Point (Some (Int64Value 1))), Some (Point (Some (Int64Value 1))),
         Some (Point (Some (Int64Value 9007199254740992)))]"
proof -
  have big: "getFloatValue ''INT64'' (GetValue (Some (Point (Some (Int64Value 9007199254740992)))))
      = 0x4340000000000000"
    and one: "getFloatValue ''INT64'' (GetValue (Some (Point (Some (Int64Value 1)))))
      = 0x3FF0000000000000"
    by (simp_all add: plugin_eval_defs f64_eval_defs)
  have a1: "f64_add f64_zero 0x4340000000000000 = 0x4340000000000000"
    and a2: "f64_add 0x4340000000000000 0x3FF0000000000000 = 0x4340000000000000"
    and b1: "f64_add f64_zero 0x3FF0000000000000 = 0x3FF0000000000000"
    and b2: "f64_add 0x3FF0000000000000 0x3FF0000000000000 = 0x4000000000000000"
    and b3: "f64_add 0x4000000000000000 0x4340000000000000 = 0x4340000000000001"
    by (simp_all add: f64_eval_defs)
  show ?thesis
    by (simp add: evaluate_def sum_step_def big one a1 a2 b1 b2 b3)
qed

text \<open>
  C6, amended. \<^verbatim>\<open>SUM\<close> is the float64 sum of the normalized values from left to
  right, starting from \<open>0.0\<close>. For \<^verbatim>\<open>INT64\<close> points whose absolute values sum to
  less than \<open>2 ^ 53\<close> no addition rounds: the result is the arithmetic sum, and it is
  the same for every permutation of the points. \<^verbatim>\<open>LAST\<close> returns the normalized value
  of the first point, so two sequences with the same first point have equal results.
\<close>

theorem sum_left_fold_and_last_first_point:
  "evaluate ''SUM'' vt points =
     Inr (fold (\<lambda>p ret. f64_add ret (getFloatValue vt (GetValue p))) points f64_zero)
   \<and> ((\<Sum>p\<leftarrow>points. \<bar>sint (GetInt64Value (GetValue p))\<bar>) < 2 ^ 53 \<longrightarrow>
        evaluate ''SUM'' ''INT64'' points =
          Inr (f64_of_int (\<Sum>p\<leftarrow>points. sint (GetInt64Value (GetValue p)))))
   \<and> ((\<Sum>p\<leftarrow>points. \<bar>sint (GetInt64Value (GetValue p))\<bar>) < 2 ^ 53 \<and> mset points' = mset points \<longrightarrow>
        evaluate ''SUM'' ''INT64'' points' = evaluate ''SUM'' ''INT64'' points)
   \<and> evaluate ''LAST'' vt (p # rest) = Inr (getFloatValue vt (GetValue p))
   \<and> evaluate ''LAST'' vt (p # rest) = evaluate ''LAST'' vt (p # rest')"
proof (intro conjI impI)
  have "sum_step vt = (\<lambda>p ret. f64_add ret (getFloatValue vt (GetValue p)))"
    by (intro ext) (simp add: sum_step_def)
  then show "evaluate ''SUM'' vt points =
     Inr (fold (\<lambda>p ret. f64_add ret (getFloatValue vt (GetValue p))) points f64_zero)"
    by (simp add: evaluate_def)
next
  assume "(\<Sum>p\<leftarrow>points. \<bar>sint (GetInt64Value (GetValue p))\<bar>) < 2 ^ 53"
  then show "evaluate ''SUM'' ''INT64'' points =
          Inr (f64_of_int (\<Sum>p\<leftarrow>points. sint (GetInt64Value (GetValue p))))"
    by (rule evaluate_sum_int_exact)
next
  assume a: "(\<Sum>p\<leftarrow>points. \<bar>sint (GetInt64Value (GetValue p))\<bar>) < 2 ^ 53 \<and> mset points' = mset points"
  then have m: "mset points' = mset points" by simp
  from a sum_list_map_mset_cong [OF m, of "\<lambda>p. \<bar>sint (GetInt64Value (GetValue p))\<bar>"]
  have b': "(\<Sum>p\<leftarrow>points'. \<bar>sint (GetInt64Value (GetValue p))\<bar>) < 2 ^ 53" by simp
  from a have b: "(\<Sum>p\<leftarrow>points. \<bar>sint (GetInt64Value (GetValue p))\<bar>) < 2 ^ 53" by simp
  show "evaluate ''SUM'' ''INT64'' points' = evaluate ''SUM'' ''INT64'' points"
    unfolding evaluate_sum_int_exact [OF b] evaluate_sum_int_exact [OF b']
    using sum_list_map_mset_cong [OF m, of "\<lambda>p. sint (GetInt64Value (GetValue p))"] by simp
next
  show "evaluate ''LAST'' vt (p # rest) = Inr (getFloatValue vt (GetValue p))"
    and "evaluate ''LAST'' vt (p # rest) = evaluate ''LAST'' vt (p # rest')"
    by (simp_all add: evaluate_def)
qed

theorem sum_left_fold_and_last_first_point_witness:
  "(\<Sum>p\<leftarrow>[Some (Point (Some (Int64Value 3))), Some (Point (Some (Int64Value (- 1)))),
           Some (Point (Some (Int64Value 5)))]. \<bar>sint (GetInt64Value (GetValue p))\<bar>) < 2 ^ 53
   \<and> mset [Some (Point (Some (Int64Value 5))), Some (Point (Some (Int64Value 3))),
           Some (Point (Some (Int64Value (- 1))))]
       = mset [Some (Point (Some (Int64Value 3))), Some (Point (Some (Int64Value (- 1)))),
               Some (Point (Some (Int64Value 5)))]
   \<and> evaluate ''SUM'' ''INT64''
        [Some (Point (Some (Int64Value 3))), Some (Point (Some (Int64Value (- 1)))),
         Some (Point (Some (Int64Value 5)))] = Inr 0x401C000000000000
   \<and> evaluate ''SUM'' ''INT64''
        [Some (Point (Some (Int64Value 5))), Some (Point (Some (Int64Value 3))),
         Some (Point (Some (Int64Value (- 1))))] = Inr 0x401C000000000000
   \<and> evaluate ''LAST'' ''INT64''
        [Some (Point (Some (Int64Value 3))), Some (Point (Some (Int64Value (- 1)))),
         Some (Point (Some (Int64Value 5)))] = Inr 0x4008000000000000"
proof -
  let ?a = "Some (Point (Some (Int64Value 3)))"
  let ?b = "Some (Point (Some (Int64Value (- 1))))"
  let ?c = "Some (Point (Some (Int64Value 5)))"
  have v: "sint (GetInt64Value (GetValue ?a)) = 3" "sint (GetInt64Value (GetValue ?b)) = - 1"
    "sint (GetInt64Value (GetValue ?c)) = 5"
    by (simp_all add: GetInt64Value_def GetValue_def)
  have bound: "(\<Sum>p\<leftarrow>[?a, ?b, ?c]. \<bar>sint (GetInt64Value (GetValue p))\<bar>) < 2 ^ 53"
    by (simp add: v)
  have perm: "mset [?c, ?a, ?b] = mset [?a, ?b, ?c]" by simp
  have seven: "f64_of_int 7 = 0x401C000000000000" and three: "f64_of_int 3 = 0x4008000000000000"
    by (simp_all add: f64_eval_defs)
  note t = sum_left_fold_and_last_first_point [of "''INT64''" "[?a, ?b, ?c]" "[?c, ?a, ?b]" ?a "[?b, ?c]" "[]"]
  have s1: "evaluate ''SUM'' ''INT64'' [?a, ?b, ?c] = Inr 0x401C000000000000"
    using t [THEN conjunct2, THEN conjunct1, rule_format, OF bound] by (simp add: v seven)
  have s2: "evaluate ''SUM'' ''INT64'' [?c, ?a, ?b] = evaluate ''SUM'' ''INT64'' [?a, ?b, ?c]"
    using t [THEN conjunct2, THEN conjunct2, THEN conjunct1, rule_format, OF conjI [OF bound perm]] .
  have l: "evaluate ''LAST'' ''INT64'' [?a, ?b, ?c] = Inr 0x4008000000000000"
    using t [THEN conjunct2, THEN conjunct2, THEN conjunct2, THEN conjunct1]
    by (simp add: getFloatValue_INT64 v three)
  from bound perm s1 s2 l show ?thesis by simp
qed

section \<open>The status evaluation\<close>

lemma check_metric_eq:
  "check_metric opts el (s, m, p) =
     (if f64_gt (Critical opts) f64_zero \<and> f64_ge (Value el) (Critical opts) \<and> (s = OK \<or> s = WARNING)
      then (CRITICAL, breach_message (Name el) (Evalution opts) (Value el) (Critical opts),
            p @ perf_token opts el)
      else if f64_gt (Warning opts) f64_zero \<and> f64_ge (Value el) (Warning opts) \<and> s = OK
      then (WARNING, breach_message (Name el) (Evalution opts) (Value el) (Warning opts),
            p @ perf_token opts el)
      else (s, m, p @ perf_token opts el))"
  by (auto simp: check_metric_def Let_def OK_def WARNING_def)

lemma check_metrics_append:
  "check_metrics opts (xs @ ys) = fold (check_metric opts) ys (check_metrics opts xs)"
  by (simp add: check_metrics_def)

lemma fold_check_critical:
  "fst st = CRITICAL \<Longrightarrow>
   fst (fold (check_metric opts) ys st) = CRITICAL \<and>
   fst (snd (fold (check_metric opts) ys st)) = fst (snd st)"
proof (induction ys arbitrary: st)
  case Nil
  then show ?case by simp
next
  case (Cons y ys)
  obtain s m p where st: "st = (s, m, p)" by (cases st)
  with Cons.prems have s: "s = CRITICAL" by simp
  have step: "check_metric opts y (s, m, p) = (CRITICAL, m, p @ perf_token opts y)"
    by (simp add: s check_metric_eq status_consts)
  show ?case using Cons.IH [of "check_metric opts y (s, m, p)"] by (simp add: step st)
qed

lemma check_metric_status:
  "fst st \<in> {OK, WARNING, CRITICAL} \<Longrightarrow>
   fst (check_metric opts y st) \<in> {OK, WARNING, CRITICAL} \<and> fst st \<le> fst (check_metric opts y st)"
  by (cases st) (auto simp: check_metric_eq status_consts)

lemma fold_check_status:
  "fst st \<in> {OK, WARNING, CRITICAL} \<Longrightarrow>
   fst (fold (check_metric opts) ys st) \<in> {OK, WARNING, CRITICAL} \<and>
   fst st \<le> fst (fold (check_metric opts) ys st)"
proof (induction ys arbitrary: st)
  case Nil
  then show ?case by simp
next
  case (Cons y ys)
  from check_metric_status [OF Cons.prems, of opts y]
  have a: "fst (check_metric opts y st) \<in> {OK, WARNING, CRITICAL}"
    and b: "fst st \<le> fst (check_metric opts y st)" by simp_all
  from Cons.IH [OF a] b show ?case by simp
qed

lemma check_metric_warning:
  "fst st = WARNING \<Longrightarrow>
   check_metric opts y st = (WARNING, fst (snd st), snd (snd st) @ perf_token opts y) \<or>
   check_metric opts y st =
     (CRITICAL, breach_message (Name y) (Evalution opts) (Value y) (Critical opts),
      snd (snd st) @ perf_token opts y)"
  by (cases st) (auto simp: check_metric_eq status_consts)

lemma fold_check_warning:
  "fst st = WARNING \<Longrightarrow>
   (fst (fold (check_metric opts) ys st) = WARNING \<and>
    fst (snd (fold (check_metric opts) ys st)) = fst (snd st)) \<or>
   (fst (fold (check_metric opts) ys st) = CRITICAL \<and>
    (\<exists>y. y \<in> set ys \<and> fst (snd (fold (check_metric opts) ys st)) =
       breach_message (Name y) (Evalution opts) (Value y) (Critical opts)))"
proof (induction ys arbitrary: st)
  case Nil
  then show ?case by simp
next
  case (Cons y ys)
  from check_metric_warning [OF Cons.prems, of opts y]
  consider (stay) "check_metric opts y st = (WARNING, fst (snd st), snd (snd st) @ perf_token opts y)"
    | (up) "check_metric opts y st =
        (CRITICAL, breach_message (Name y) (Evalution opts) (Value y) (Critical opts),
         snd (snd st) @ perf_token opts y)"
    by blast
  then show ?case
  proof cases
    case stay
    with Cons.IH [of "check_metric opts y st"] show ?thesis by auto
  next
    case up
    with fold_check_critical [of "check_metric opts y st" opts ys] show ?thesis by auto
  qed
qed

lemma check_metrics_status: "fst (check_metrics opts xs) \<in> {OK, WARNING, CRITICAL}"
  unfolding check_metrics_def by (rule fold_check_status [THEN conjunct1]) simp

text \<open>
  C1. For each metric the critical threshold is checked before the warning threshold: a
  metric at or above an active critical threshold makes the status CRITICAL, with the
  critical message, from OK and from WARNING alike. Over the list the status only grows:
  it stays within OK, WARNING, CRITICAL, the status after a prefix is at most the status
  after the whole list, a CRITICAL status and its message stay as they are, and a WARNING
  status either stays with its message or becomes CRITICAL with the critical message of
  a later metric.
\<close>

theorem critical_first_and_status_monotone:
  "(f64_gt (Critical opts) f64_zero \<and> f64_ge (Value el) (Critical opts) \<and> (s = OK \<or> s = WARNING) \<longrightarrow>
      fst (check_metric opts el (s, m, p)) = CRITICAL \<and>
      fst (snd (check_metric opts el (s, m, p))) =
        breach_message (Name el) (Evalution opts) (Value el) (Critical opts))
   \<and> fst (check_metrics opts xs) \<in> {OK, WARNING, CRITICAL}
   \<and> fst (check_metrics opts xs) \<le> fst (check_metrics opts (xs @ ys))
   \<and> (fst (check_metrics opts xs) = CRITICAL \<longrightarrow>
        fst (check_metrics opts (xs @ ys)) = CRITICAL \<and>
        fst (snd (check_metrics opts (xs @ ys))) = fst (snd (check_metrics opts xs)))
   \<and> (fst (check_metrics opts xs) = WARNING \<longrightarrow>
        (fst (check_metrics opts (xs @ ys)) = WARNING \<and>
         fst (snd (check_metrics opts (xs @ ys))) = fst (snd (check_metrics opts xs))) \<or>
        (fst (check_metrics opts (xs @ ys)) = CRITICAL \<and>
         (\<exists>y. y \<in> set ys \<and> fst (snd (check_metrics opts (xs @ ys))) =
            breach_message (Name y) (Evalution opts) (Value y) (Critical opts))))"
proof (intro conjI impI)
  assume "f64_gt (Critical opts) f64_zero \<and> f64_ge (Value el) (Critical opts) \<and> (s = OK \<or> s = WARNING)"
  then show "fst (check_metric opts el (s, m, p)) = CRITICAL"
    and "fst (snd (check_metric opts el (s, m, p))) =
           breach_message (Name el) (Evalution opts) (Value el) (Critical opts)"
    by (simp_all add: check_metric_eq)
next
  show "fst (check_metrics opts xs) \<in> {OK, WARNING, CRITICAL}"
    by (rule check_metrics_status)
next
  show "fst (check_metrics opts xs) \<le> fst (check_metrics opts (xs @ ys))"
    unfolding check_metrics_append
    by (rule fold_check_status [OF check_metrics_status, THEN conjunct2])
next
  assume c: "fst (check_metrics opts xs) = CRITICAL"
  from fold_check_critical [OF c, of opts ys]
  show "fst (check_metrics opts (xs @ ys)) = CRITICAL"
    and "fst (snd (check_metrics opts (xs @ ys))) = fst (snd (check_metrics opts xs))"
    by (simp_all add: check_metrics_append)
next
  assume w: "fst (check_metrics opts xs) = WARNING"
  from fold_check_warning [OF w, of opts ys]
  show "(fst (check_metrics opts (xs @ ys)) = WARNING \<and>
         fst (snd (check_metrics opts (xs @ ys))) = fst (snd (check_metrics opts xs))) \<or>
        (fst (check_metrics opts (xs @ ys)) = CRITICAL \<and>
         (\<exists>y. y \<in> set ys \<and> fst (snd (check_metrics opts (xs @ ys))) =
            breach_message (Name y) (Evalution opts) (Value y) (Critical opts)))"
    by (simp add: check_metrics_append)
qed

theorem critical_first_and_status_monotone_witness:
  "f64_gt 0x4024000000000000 f64_zero
   \<and> f64_ge 0x4028000000000000 0x4024000000000000
   \<and> check_metric \<lparr>Evalution = ''MAX'', Critical = 0x4024000000000000, Warning = 0x4014000000000000\<rparr>
        \<lparr>Name = ''b'', Value = 0x4028000000000000\<rparr> (WARNING, ''a MAX value: 7 over 5'', ''|'')
      = (CRITICAL, ''b MAX value: 12 over 10'', ''|b=12.000000;5;10 '')
   \<and> check_metrics \<lparr>Evalution = ''MAX'', Critical = 0x4024000000000000, Warning = 0x4014000000000000\<rparr>
        [\<lparr>Name = ''a'', Value = 0x401C000000000000\<rparr>]
      = (WARNING, ''a MAX value: 7 over 5'', ''|a=7.000000;5;10 '')
   \<and> check_metrics \<lparr>Evalution = ''MAX'', Critical = 0x4024000000000000, Warning = 0x4014000000000000\<rparr>
        [\<lparr>Name = ''a'', Value = 0x401C000000000000\<rparr>, \<lparr>Name = ''b'', Value = 0x4028000000000000\<rparr>]
      = (CRITICAL, ''b MAX value: 12 over 10'', ''|a=7.000000;5;10 b=12.000000;5;10 '')"
proof -
  let ?opts = "\<lparr>Evalution = ''MAX'', Critical = 0x4024000000000000, Warning = 0x4014000000000000\<rparr>"
  let ?a = "\<lparr>Name = ''a'', Value = 0x401C000000000000\<rparr>"
  let ?b = "\<lparr>Name = ''b'', Value = 0x4028000000000000\<rparr>"
  have gt: "f64_gt 0x4024000000000000 f64_zero"
    and ge: "f64_ge 0x4028000000000000 0x4024000000000000"
    by (simp_all add: f64_cmp_defs)
  have step: "check_metric ?opts ?b (WARNING, ''a MAX value: 7 over 5'', ''|'')
      = (CRITICAL, ''b MAX value: 12 over 10'', ''|b=12.000000;5;10 '')"
    by (simp add: plugin_eval_defs f64_eval_defs)
  have one: "check_metrics ?opts [?a] = (WARNING, ''a MAX value: 7 over 5'', ''|a=7.000000;5;10 '')"
    by (simp add: plugin_eval_defs f64_eval_defs)
  have two: "check_metrics ?opts [?a, ?b] =
      (CRITICAL, ''b MAX value: 12 over 10'', ''|a=7.000000;5;10 b=12.000000;5;10 '')"
    by (simp add: plugin_eval_defs f64_eval_defs)
  from critical_first_and_status_monotone
    [of ?opts ?b WARNING "''a MAX value: 7 over 5''" "''|''" "[?a]" "[?b]"]
  show ?thesis
    by (simp add: gt ge step one two)
qed

lemma f64_le_not_gt: "f64_le a b \<Longrightarrow> \<not> f64_gt a b"
  by (simp add: f64_le_def f64_gt_def f64_lt_def)

lemma fold_check_inactive:
  "\<not> f64_gt (Critical opts) f64_zero \<Longrightarrow> \<not> f64_gt (Warning opts) f64_zero \<Longrightarrow>
   fst (fold (check_metric opts) ys st) = fst st \<and>
   fst (snd (fold (check_metric opts) ys st)) = fst (snd st)"
proof (induction ys arbitrary: st)
  case Nil
  then show ?case by simp
next
  case (Cons y ys)
  obtain s m p where st: "st = (s, m, p)" by (cases st)
  have step: "check_metric opts y (s, m, p) = (s, m, p @ perf_token opts y)"
    using Cons.prems by (simp add: check_metric_eq)
  show ?case using Cons.IH [OF Cons.prems, of "(s, m, p @ perf_token opts y)"]
    by (simp add: st step)
qed

text \<open>
  C2. A threshold at or below \<open>0.0\<close> is not active: when both thresholds are at or
  below zero the status stays OK and the message stays \<open>Everything is OK\<close>, whatever
  the metrics are.
\<close>

theorem disabled_thresholds_keep_ok:
  assumes "f64_le (Warning opts) f64_zero" and "f64_le (Critical opts) f64_zero"
  shows "fst (check_metrics opts metrics) = OK
         \<and> fst (snd (check_metrics opts metrics)) = ''Everything is OK''"
  using fold_check_inactive [OF f64_le_not_gt [OF assms(2)] f64_le_not_gt [OF assms(1)],
      of metrics "(OK, ''Everything is OK'', ''|'')"]
  by (simp add: check_metrics_def)

theorem disabled_thresholds_keep_ok_witness:
  "f64_le 0 f64_zero \<and> f64_le 0xBFF0000000000000 f64_zero
   \<and> fst (check_metrics \<lparr>Evalution = ''MAX'', Critical = 0xBFF0000000000000, Warning = 0\<rparr>
        [\<lparr>Name = ''a'', Value = 0x4028000000000000\<rparr>, \<lparr>Name = ''b'', Value = 0xC028000000000000\<rparr>]) = OK
   \<and> fst (snd (check_metrics \<lparr>Evalution = ''MAX'', Critical = 0xBFF0000000000000, Warning = 0\<rparr>
        [\<lparr>Name = ''a'', Value = 0x4028000000000000\<rparr>, \<lparr>Name = ''b'', Value = 0xC028000000000000\<rparr>]))
      = ''Everything is OK''"
proof -
  have w: "f64_le (Warning \<lparr>Evalution = ''MAX'', Critical = 0xBFF0000000000000, Warning = 0\<rparr>) f64_zero"
    and c: "f64_le (Critical \<lparr>Evalution = ''MAX'', Critical = 0xBFF0000000000000, Warning = 0\<rparr>) f64_zero"
    by (simp_all add: f64_cmp_defs)
  from disabled_thresholds_keep_ok [OF w c] w c show ?thesis
    by simp
qed

lemma fold_check_perfdata:
  "snd (snd (fold (check_metric opts) ys st)) = snd (snd st) @ concat (map (perf_token opts) ys)"
proof (induction ys arbitrary: st)
  case Nil
  then show ?case by simp
next
  case (Cons y ys)
  obtain s m p where st: "st = (s, m, p)" by (cases st)
  have "snd (snd (check_metric opts y (s, m, p))) = p @ perf_token opts y"
    by (simp add: check_metric_eq)
  then show ?case using Cons.IH [of "check_metric opts y (s, m, p)"] by (simp add: st)
qed

lemma trunc_mag_floor:
  "trunc_mag m * 2 ^ 1074 \<le> mant m * 2 ^ expo m \<and>
   mant m * 2 ^ expo m < (trunc_mag m + 1) * 2 ^ 1074"
proof (cases "1074 \<le> expo m")
  case True
  then have "(2::nat) ^ expo m = 2 ^ (expo m - 1074) * 2 ^ 1074"
    by (simp add: power_add [symmetric] del: power_numeral)
  with True show ?thesis
    by (simp add: trunc_mag_def del: power_numeral)
next
  case False
  define d :: nat where "d = 2 ^ (1074 - expo m)"
  define k :: nat where "k = 2 ^ expo m"
  have dk: "d * k = 2 ^ 1074"
    using False unfolding d_def k_def by (simp add: power_add [symmetric] del: power_numeral)
  have d: "0 < d" and k: "0 < k" by (simp_all add: d_def k_def)
  have t: "trunc_mag m = mant m div d"
    using False by (simp add: trunc_mag_def d_def)
  have lo: "(mant m div d) * d \<le> mant m" by simp
  have hi: "mant m < (mant m div d + 1) * d"
    using d by (metis Suc_eq_plus1 dividend_less_div_times mult.commute mult_Suc)
  have "(mant m div d) * (d * k) \<le> mant m * k"
    using lo k by (metis mult.assoc mult_le_mono1)
  moreover have "mant m * k < (mant m div d + 1) * (d * k)"
    using hi k by (metis mult.assoc mult_less_mono1)
  ultimately show ?thesis
    unfolding t dk [symmetric] k_def [symmetric] by simp
qed

lemma f64_to_int_truncates:
  assumes "magnitude x < inf_mag" and "trunc_mag (magnitude x) < 2 ^ 63"
  shows "f64_to_int x = signed_val (sign_bit x) (trunc_mag (magnitude x))"
  using assms by (simp add: f64_to_int_def signed_val_def Let_def)

text \<open>
  C7. The evaluation starts from status OK, message \<open>Everything is OK\<close> and
  performance data \<open>|\<close>. The performance data of a list of metrics is \<open>|\<close> followed,
  for every metric in input order, by its name, \<open>=\<close>, its value printed with
  \<^verbatim>\<open>%f\<close>, and the two thresholds converted to \<^verbatim>\<open>int\<close>. Whenever a metric changes the
  status, the message holds its value and the threshold converted to \<^verbatim>\<open>int\<close>; that
  conversion truncates: for a finite number whose integer part fits, it is the integer
  part with the sign, the largest integer not above the magnitude.
\<close>

theorem perfdata_for_every_metric:
  "check_metrics opts [] = (OK, ''Everything is OK'', ''|'')
   \<and> snd (snd (check_metrics opts metrics)) =
       ''|'' @ concat (map (\<lambda>el. Name el @ ''='' @ fmt_f (Value el) @ '';'' @
                               fmt_d (f64_to_int (Warning opts)) @ '';'' @
                               fmt_d (f64_to_int (Critical opts)) @ '' '') metrics)
   \<and> (fst (check_metric opts el (s, m, p)) \<noteq> s \<longrightarrow>
        fst (snd (check_metric opts el (s, m, p))) =
          Name el @ '' '' @ Evalution opts @ '' value: '' @ fmt_d (f64_to_int (Value el)) @ '' over '' @
          fmt_d (f64_to_int (if fst (check_metric opts el (s, m, p)) = CRITICAL
                             then Critical opts else Warning opts)))
   \<and> (magnitude x < inf_mag \<and> trunc_mag (magnitude x) < 2 ^ 63 \<longrightarrow>
        f64_to_int x = signed_val (sign_bit x) (trunc_mag (magnitude x)) \<and>
        trunc_mag (magnitude x) * 2 ^ 1074 \<le> mant (magnitude x) * 2 ^ expo (magnitude x) \<and>
        mant (magnitude x) * 2 ^ expo (magnitude x) < (trunc_mag (magnitude x) + 1) * 2 ^ 1074)"
proof (intro conjI impI)
  show "check_metrics opts [] = (OK, ''Everything is OK'', ''|'')"
    by (simp add: check_metrics_def)
  have "perf_token opts = (\<lambda>el. Name el @ ''='' @ fmt_f (Value el) @ '';'' @
          fmt_d (f64_to_int (Warning opts)) @ '';'' @ fmt_d (f64_to_int (Critical opts)) @ '' '')"
    by (rule ext) (simp add: perf_token_def)
  then show "snd (snd (check_metrics opts metrics)) =
       ''|'' @ concat (map (\<lambda>el. Name el @ ''='' @ fmt_f (Value el) @ '';'' @
                               fmt_d (f64_to_int (Warning opts)) @ '';'' @
                               fmt_d (f64_to_int (Critical opts)) @ '' '') metrics)"
    using fold_check_perfdata [of opts metrics "(OK, ''Everything is OK'', ''|'')"]
    by (simp add: check_metrics_def)
next
  assume "fst (check_metric opts el (s, m, p)) \<noteq> s"
  then show "fst (snd (check_metric opts el (s, m, p))) =
          Name el @ '' '' @ Evalution opts @ '' value: '' @ fmt_d (f64_to_int (Value el)) @ '' over '' @
          fmt_d (f64_to_int (if fst (check_metric opts el (s, m, p)) = CRITICAL
                             then Critical opts else Warning opts))"
    by (auto simp: check_metric_eq breach_message_def status_consts split: if_splits)
next
  assume a: "magnitude x < inf_mag \<and> trunc_mag (magnitude x) < 2 ^ 63"
  then show "f64_to_int x = signed_val (sign_bit x) (trunc_mag (magnitude x))"
    by (simp add: f64_to_int_truncates)
  show "trunc_mag (magnitude x) * 2 ^ 1074 \<le> mant (magnitude x) * 2 ^ expo (magnitude x)"
    and "mant (magnitude x) * 2 ^ expo (magnitude x) < (trunc_mag (magnitude x) + 1) * 2 ^ 1074"
    using trunc_mag_floor [of "magnitude x"] by blast+
qed

theorem perfdata_for_every_metric_witness:
  "snd (snd (check_metrics \<lparr>Evalution = ''MAX'', Critical = 0x4024000000000000, Warning = 0x4014000000000000\<rparr>
       [\<lparr>Name = ''a'', Value = 0x4008000000000000\<rparr>, \<lparr>Name = ''b'', Value = 0x4029666666666666\<rparr>]))
     = ''|a=3.000000;5;10 b=12.700000;5;10 ''
   \<and> fst (check_metric \<lparr>Evalution = ''MAX'', Critical = 0x4024000000000000, Warning = 0x4014000000000000\<rparr>
        \<lparr>Name = ''b'', Value = 0x4029666666666666\<rparr> (OK, ''Everything is OK'', ''|'')) \<noteq> OK
   \<and> fst (snd (check_metric \<lparr>Evalution = ''MAX'', Critical = 0x4024000000000000, Warning = 0x4014000000000000\<rparr>
        \<lparr>Name = ''b'', Value = 0x4029666666666666\<rparr> (OK, ''Everything is OK'', ''|'')))
     = ''b MAX value: 12 over 10''
   \<and> magnitude 0x4029666666666666 < inf_mag
   \<and> trunc_mag (magnitude 0x4029666666666666) < 2 ^ 63
   \<and> f64_to_int 0x4029666666666666 = 12"
proof -
  let ?opts = "\<lparr>Evalution = ''MAX'', Critical = 0x4024000000000000, Warning = 0x4014000000000000\<rparr>"
  let ?a = "\<lparr>Name = ''a'', Value = 0x4008000000000000\<rparr>"
  let ?b = "\<lparr>Name = ''b'', Value = 0x4029666666666666\<rparr>"
  have fa: "fmt_f 0x4008000000000000 = ''3.000000''"
    and fb: "fmt_f 0x4029666666666666 = ''12.700000''"
    by (simp_all add: f64_eval_defs)
  have dw: "fmt_d (f64_to_int 0x4014000000000000) = ''5''"
    and dc: "fmt_d (f64_to_int 0x4024000000000000) = ''10''"
    and db: "fmt_d (f64_to_int 0x4029666666666666) = ''12''"
    by (simp_all add: f64_eval_defs)
  have step: "check_metric ?opts ?b (OK, ''Everything is OK'', ''|'') =
      (CRITICAL, ''b MAX value: 12 over 10'', ''|b=12.700000;5;10 '')"
    by (simp add: check_metric_eq breach_message_def perf_token_def fb dw dc db f64_cmp_defs)
  have fin: "magnitude 0x4029666666666666 < inf_mag"
    and small: "trunc_mag (magnitude 0x4029666666666666) = 12"
    by (simp_all add: magnitude_def inf_mag_def trunc_mag_def mant_def expo_def)
  have ne: "CRITICAL \<noteq> OK"
    by (simp add: status_consts)
  have ti: "f64_to_int 0x4029666666666666 = 12"
    and sv: "signed_val (sign_bit 0x4029666666666666) 12 = 12"
    by (simp_all add: f64_eval_defs)
  from perfdata_for_every_metric
    [of ?opts "[?a, ?b]" ?b OK "''Everything is OK''" "''|''" "0x4029666666666666"]
  show ?thesis
    by (simp add: step fin small fa fb dw dc ne ti sv)
qed

section \<open>The whole run\<close>

lemma collect_counts_points:
  "collect opts (map Series gs) metrics len = Inr (metrics', len') \<Longrightarrow>
   len' = len + sum_list (map (\<lambda>g. length (Points g)) gs)"
proof (induction gs arbitrary: metrics len)
  case Nil
  then show ?case by simp
next
  case (Cons g gs)
  then show ?case
    by (cases "evaluate (Evalution opts) (ValueType g) (Points g)") (auto dest: Cons.IH)
qed

lemma collect_last_empty_group:
  "Evalution opts = ''LAST'' \<Longrightarrow> \<exists>g \<in> set gs. Points g = [] \<Longrightarrow>
   collect opts (map Series gs) metrics len = Inl (Panic IndexOutOfRange)"
proof (induction gs arbitrary: metrics len)
  case Nil
  then show ?case by simp
next
  case (Cons g gs)
  show ?case
  proof (cases "Points g")
    case Nil
    with Cons.prems(1) show ?thesis by (simp add: evaluate_def)
  next
    case (Cons p ps)
    with Cons.prems have "\<exists>g \<in> set gs. Points g = []" by auto
    from Cons.IH [OF Cons.prems(1) this] Cons Cons.prems(1) show ?thesis
      by (simp add: evaluate_def)
  qed
qed

lemma collect_no_points:
  "Evalution opts \<noteq> ''LAST'' \<Longrightarrow> \<forall>g \<in> set gs. Points g = [] \<Longrightarrow>
   \<exists>metrics'. collect opts (map Series gs) metrics len = Inr (metrics', len)"
proof (induction gs arbitrary: metrics len)
  case Nil
  then show ?case by simp
next
  case (Cons g gs)
  from Cons.prems have g: "Points g = []" and rest: "\<forall>g \<in> set gs. Points g = []" by simp_all
  from Cons.prems(1) g obtain v where v: "evaluate (Evalution opts) (ValueType g) (Points g) = Inr v"
    by (auto simp: evaluate_def)
  from Cons.IH [OF Cons.prems(1) rest] v g show ?case by simp
qed

lemma evaluate_returns:
  "\<not> (et = ''LAST'' \<and> points = []) \<Longrightarrow> \<exists>v. evaluate et vt points = Inr v"
  by (cases points) (simp_all add: evaluate_def)

lemma collect_failure:
  "\<forall>g \<in> set gs. Evalution opts = ''LAST'' \<longrightarrow> Points g \<noteq> [] \<Longrightarrow>
   collect opts (map Series gs @ Failure # rest) metrics len =
     Inl (Exit_with (output_go UNKNOWN ''Failed to fetch time series.''))"
proof (induction gs arbitrary: metrics len)
  case Nil
  then show ?case by simp
next
  case (Cons g gs)
  from Cons.prems have "\<not> (Evalution opts = ''LAST'' \<and> Points g = [])" by simp
  from evaluate_returns [OF this]
  obtain v where "evaluate (Evalution opts) (ValueType g) (Points g) = Inr v" by blast
  with Cons show ?case by simp
qed

lemma main_fetch_failure:
  assumes "parsed r = Some opts" and "client_error r = None"
    and "response r = map Series gs @ Failure # rest"
    and "\<forall>g \<in> set gs. Evalution opts = ''LAST'' \<longrightarrow> Points g \<noteq> []"
  shows "main r = Exit (output_go UNKNOWN ''Failed to fetch time series.'')"
  using assms collect_failure [OF assms(4), of rest "[]" 0] by (simp add: main_def)

lemma collect_returns:
  "\<forall>g \<in> set gs. Evalution opts = ''LAST'' \<longrightarrow> Points g \<noteq> [] \<Longrightarrow>
   \<exists>metrics'. collect opts (map Series gs) metrics len =
      Inr (metrics', len + sum_list (map (\<lambda>g. length (Points g)) gs))"
proof (induction gs arbitrary: metrics len)
  case Nil
  then show ?case by simp
next
  case (Cons g gs)
  from Cons.prems have "\<not> (Evalution opts = ''LAST'' \<and> Points g = [])" by simp
  from evaluate_returns [OF this]
  obtain v where v: "evaluate (Evalution opts) (ValueType g) (Points g) = Inr v" by blast
  from Cons.prems have "\<forall>g \<in> set gs. Evalution opts = ''LAST'' \<longrightarrow> Points g \<noteq> []" by simp
  from Cons.IH [OF this, of "metrics @ [\<lparr>Name = metric_name_of (Labels g), Value = v\<rparr>]"
      "len + length (Points g)"] v
  show ?case by (simp add: add.assoc)
qed

lemma main_no_points:
  assumes "parsed r = Some opts" and "client_error r = None"
    and "response r = map Series gs"
    and "\<forall>g \<in> set gs. Evalution opts = ''LAST'' \<longrightarrow> Points g \<noteq> []"
    and "sum_list (map (\<lambda>g. length (Points g)) gs) = 0"
  shows "main r = Exit (output_go UNKNOWN ''Time series is empty.'')"
proof -
  from collect_returns [OF assms(4), of "[]" 0] assms(5)
  obtain metrics' where "collect opts (map Series gs) [] 0 = Inr (metrics', 0)" by auto
  with assms(1-3) show ?thesis by (simp add: main_def)
qed

text \<open>The three scenarios of the specification, run on the model.\<close>

lemma main_scenarios:
  "main \<lparr>parsed = Some \<lparr>Evalution = ''MAX'', Critical = 0x4024000000000000, Warning = 0x4014000000000000\<rparr>,
         client_error = None,
         response =
           [Series \<lparr>Labels = [(''project_id'', ''p''), (''instance_id'', ''a'')], ValueType = ''DOUBLE'',
                    Points = [Some (Point (Some (DoubleValue 0x4008000000000000)))]\<rparr>,
            Series \<lparr>Labels = [(''instance_id'', ''b''), (''project_id'', ''p'')], ValueType = ''INT64'',
                    Points = [Some (Point (Some (Int64Value 7))), Some (Point (Some (Int64Value 12)))]\<rparr>]\<rparr>
     = Exit \<lparr>stdout = ''CRITICAL - b MAX value: 12 over 10|a=3.000000;5;10 b=12.000000;5;10 '' @ [CHR 0x0A],
             code = 2\<rparr>"
  "main \<lparr>parsed = Some \<lparr>Evalution = ''MAX'', Critical = 0x4024000000000000, Warning = 0x4014000000000000\<rparr>,
         client_error = None, response = []\<rparr>
     = Exit \<lparr>stdout = ''UNKNOWN - Time series is empty.'' @ [CHR 0x0A], code = 3\<rparr>"
  "main \<lparr>parsed = Some \<lparr>Evalution = ''MAX'', Critical = 0x4024000000000000, Warning = 0x4014000000000000\<rparr>,
         client_error = None,
         response =
           [Series \<lparr>Labels = [(''instance_id'', ''a'')], ValueType = ''DOUBLE'',
                    Points = [Some (Point (Some (DoubleValue 0x4010000000000000)))]\<rparr>]\<rparr>
     = Exit \<lparr>stdout = ''OK - Everything is OK|a=4.000000;5;10 '' @ [CHR 0x0A], code = 0\<rparr>"
  by (simp_all add: plugin_eval_defs f64_eval_defs)


lemma output_go_not_unknown:
  "fst (check_metrics opts metrics) = s \<Longrightarrow> output_go s x \<noteq> output_go UNKNOWN y"
proof
  assume s: "fst (check_metrics opts metrics) = s" and eq: "output_go s x = output_go UNKNOWN y"
  from eq have "code (output_go s x) = code (output_go UNKNOWN y)" by simp
  then have "s = UNKNOWN" by (simp add: output_go_def)
  with s check_metrics_status [of opts metrics] show False
    by (simp add: status_consts)
qed

lemma main_on_series:
  assumes "parsed r = Some opts" and "client_error r = None"
    and "response r = map Series gs"
    and "\<forall>g \<in> set gs. Evalution opts = ''LAST'' \<longrightarrow> Points g \<noteq> []"
  shows "\<exists>metrics.
           collect opts (map Series gs) [] 0 =
             Inr (metrics, sum_list (map (\<lambda>g. length (Points g)) gs)) \<and>
           main r =
             (if sum_list (map (\<lambda>g. length (Points g)) gs) = 0
              then Exit (output_go UNKNOWN ''Time series is empty.'')
              else Exit (output_go (fst (check_metrics opts metrics))
                     (fst (snd (check_metrics opts metrics)) @ snd (snd (check_metrics opts metrics)))))"
proof -
  from collect_returns [OF assms(4), of "[]" 0]
  obtain metrics where c: "collect opts (map Series gs) [] 0 =
      Inr (metrics, sum_list (map (\<lambda>g. length (Points g)) gs))" by auto
  have "main r =
      (if sum_list (map (\<lambda>g. length (Points g)) gs) = 0
       then Exit (output_go UNKNOWN ''Time series is empty.'')
       else Exit (output_go (fst (check_metrics opts metrics))
              (fst (snd (check_metrics opts metrics)) @ snd (snd (check_metrics opts metrics)))))"
    using assms(1-3) c by (simp add: main_def split: prod.splits)
  with c show ?thesis by blast
qed

lemma main_report_iff_no_points:
  assumes "parsed r = Some opts" and "client_error r = None"
    and "response r = map Series gs"
    and "\<forall>g \<in> set gs. Evalution opts = ''LAST'' \<longrightarrow> Points g \<noteq> []"
  shows "main r = Exit (output_go UNKNOWN ''Time series is empty.'') \<longleftrightarrow>
         sum_list (map (\<lambda>g. length (Points g)) gs) = 0"
proof -
  from main_on_series [OF assms] obtain metrics where
    m: "main r =
      (if sum_list (map (\<lambda>g. length (Points g)) gs) = 0
       then Exit (output_go UNKNOWN ''Time series is empty.'')
       else Exit (output_go (fst (check_metrics opts metrics))
              (fst (snd (check_metrics opts metrics)) @ snd (snd (check_metrics opts metrics)))))"
    by blast
  show ?thesis
    unfolding m using output_go_not_unknown [OF refl, of opts metrics] by auto
qed

text \<open>
  C10, as the claim states it, fails: the report UNKNOWN, \<open>Time series is empty.\<close> is
  not reached under \<^verbatim>\<open>SUM\<close> and \<^verbatim>\<open>MAX\<close> only. A policy that \<^verbatim>\<open>evaluate\<close> does not
  know, such as \<^verbatim>\<open>AVG\<close>, aggregates every time series to \<open>0.0\<close> without indexing, and
  a response of time series without points reaches the report under it as well.
\<close>

theorem unknown_policy_reaches_empty_report_counterexample:
  "main \<lparr>parsed = Some \<lparr>Evalution = ''AVG'', Critical = 0x4024000000000000, Warning = 0x4014000000000000\<rparr>,
         client_error = None,
         response = [Series \<lparr>Labels = [(''instance_id'', ''a'')], ValueType = ''DOUBLE'', Points = []\<rparr>,
                     Series \<lparr>Labels = [(''instance_id'', ''b'')], ValueType = ''INT64'', Points = []\<rparr>]\<rparr>
     = Exit (output_go UNKNOWN ''Time series is empty.'')
   \<and> ''AVG'' \<noteq> ''SUM'' \<and> ''AVG'' \<noteq> ''MAX''"
  by (simp add: main_def evaluate_def)


text \<open>
  C10, amended. The emptiness check tests the number of points of all returned time
  series together, after every time series has been aggregated: when no aggregation
  panics, the program reports UNKNOWN, \<open>Time series is empty.\<close> exactly when that total
  is zero, and otherwise prints the result of the comparison with the thresholds. Under
  \<^verbatim>\<open>LAST\<close> a time series without points makes the program panic on \<^verbatim>\<open>points[0]\<close>
  before the check, whatever the total is. So a response of one or more time series that
  all have no points reaches the report under every policy other than \<^verbatim>\<open>LAST\<close>
  (\<^verbatim>\<open>SUM\<close>, \<^verbatim>\<open>MAX\<close> and every policy \<^verbatim>\<open>evaluate\<close> does not know), and panics under
  \<^verbatim>\<open>LAST\<close>.
\<close>

theorem empty_check_counts_all_points:
  "(parsed r = Some opts \<and> client_error r = None \<and> response r = map Series gs \<and>
      (\<forall>g \<in> set gs. Evalution opts = ''LAST'' \<longrightarrow> Points g \<noteq> []) \<longrightarrow>
        (\<exists>metrics.
           collect opts (map Series gs) [] 0 =
             Inr (metrics, sum_list (map (\<lambda>g. length (Points g)) gs)) \<and>
           main r =
             (if sum_list (map (\<lambda>g. length (Points g)) gs) = 0
              then Exit (output_go UNKNOWN ''Time series is empty.'')
              else Exit (output_go (fst (check_metrics opts metrics))
                     (fst (snd (check_metrics opts metrics)) @ snd (snd (check_metrics opts metrics))))))
        \<and> (main r = Exit (output_go UNKNOWN ''Time series is empty.'') \<longleftrightarrow>
             sum_list (map (\<lambda>g. length (Points g)) gs) = 0))
   \<and> (parsed r = Some opts \<and> client_error r = None \<and> response r = map Series gs \<and>
      Evalution opts = ''LAST'' \<and> (\<exists>g \<in> set gs. Points g = []) \<longrightarrow>
        main r = Panicked IndexOutOfRange)
   \<and> (parsed r = Some opts \<and> client_error r = None \<and> response r = map Series gs \<and>
      gs \<noteq> [] \<and> (\<forall>g \<in> set gs. Points g = []) \<longrightarrow>
        (main r = Exit (output_go UNKNOWN ''Time series is empty.'') \<longleftrightarrow> Evalution opts \<noteq> ''LAST'')
        \<and> (Evalution opts = ''SUM'' \<or> Evalution opts = ''MAX'' \<longrightarrow>
             main r = Exit (output_go UNKNOWN ''Time series is empty.''))
        \<and> (Evalution opts = ''LAST'' \<longrightarrow> main r = Panicked IndexOutOfRange))"
proof (intro conjI impI)
  assume a: "parsed r = Some opts \<and> client_error r = None \<and> response r = map Series gs \<and>
      (\<forall>g \<in> set gs. Evalution opts = ''LAST'' \<longrightarrow> Points g \<noteq> [])"
  then have h: "parsed r = Some opts" "client_error r = None" "response r = map Series gs"
    "\<forall>g \<in> set gs. Evalution opts = ''LAST'' \<longrightarrow> Points g \<noteq> []" by simp_all
  show "\<exists>metrics.
           collect opts (map Series gs) [] 0 =
             Inr (metrics, sum_list (map (\<lambda>g. length (Points g)) gs)) \<and>
           main r =
             (if sum_list (map (\<lambda>g. length (Points g)) gs) = 0
              then Exit (output_go UNKNOWN ''Time series is empty.'')
              else Exit (output_go (fst (check_metrics opts metrics))
                     (fst (snd (check_metrics opts metrics)) @ snd (snd (check_metrics opts metrics)))))"
    using h by (rule main_on_series)
  show "main r = Exit (output_go UNKNOWN ''Time series is empty.'') \<longleftrightarrow>
             sum_list (map (\<lambda>g. length (Points g)) gs) = 0"
    using h by (rule main_report_iff_no_points)
next
  assume a: "parsed r = Some opts \<and> client_error r = None \<and> response r = map Series gs \<and>
      Evalution opts = ''LAST'' \<and> (\<exists>g \<in> set gs. Points g = [])"
  then have "collect opts (response r) [] 0 = Inl (Panic IndexOutOfRange)"
    by (simp add: collect_last_empty_group)
  with a show "main r = Panicked IndexOutOfRange" by (simp add: main_def)
next
  assume a: "parsed r = Some opts \<and> client_error r = None \<and> response r = map Series gs \<and>
      gs \<noteq> [] \<and> (\<forall>g \<in> set gs. Points g = [])"
  then have some: "\<exists>g \<in> set gs. Points g = []" by (cases gs) auto
  have last: "main r = Panicked IndexOutOfRange" if "Evalution opts = ''LAST''"
    using a that collect_last_empty_group [OF that some, of "[]" 0] by (simp add: main_def)
  have other: "main r = Exit (output_go UNKNOWN ''Time series is empty.'')"
    if "Evalution opts \<noteq> ''LAST''"
  proof -
    from a that collect_no_points [of opts gs "[]" 0]
    obtain metrics' where "collect opts (response r) [] 0 = Inr (metrics', 0)" by auto
    with a show ?thesis by (simp add: main_def)
  qed
  show "main r = Exit (output_go UNKNOWN ''Time series is empty.'') \<longleftrightarrow> Evalution opts \<noteq> ''LAST''"
    using last other by auto
  show "main r = Exit (output_go UNKNOWN ''Time series is empty.'')"
    if "Evalution opts = ''SUM'' \<or> Evalution opts = ''MAX''"
    using other that by auto
  show "main r = Panicked IndexOutOfRange" if "Evalution opts = ''LAST''"
    using last that .
qed

theorem empty_check_counts_all_points_witness:
  "main \<lparr>parsed = Some \<lparr>Evalution = ''SUM'', Critical = 0x4024000000000000, Warning = 0x4014000000000000\<rparr>,
         client_error = None,
         response = [Series \<lparr>Labels = [(''instance_id'', ''a'')], ValueType = ''DOUBLE'', Points = []\<rparr>,
                     Series \<lparr>Labels = [(''instance_id'', ''b'')], ValueType = ''INT64'', Points = []\<rparr>]\<rparr>
     = Exit (output_go UNKNOWN ''Time series is empty.'')
   \<and> main \<lparr>parsed = Some \<lparr>Evalution = ''LAST'', Critical = 0x4024000000000000, Warning = 0x4014000000000000\<rparr>,
         client_error = None,
         response = [Series \<lparr>Labels = [(''instance_id'', ''a'')], ValueType = ''DOUBLE'', Points = []\<rparr>,
                     Series \<lparr>Labels = [(''instance_id'', ''b'')], ValueType = ''INT64'', Points = []\<rparr>]\<rparr>
     = Panicked IndexOutOfRange
   \<and> sum_list (map (\<lambda>g. length (Points g))
        [\<lparr>Labels = [(''instance_id'', ''a'')], ValueType = ''DOUBLE'', Points = []\<rparr>,
         \<lparr>Labels = [(''instance_id'', ''b'')], ValueType = ''INT64'',
          Points = [Some (Point (Some (Int64Value 12)))]\<rparr>]) = 1
   \<and> main \<lparr>parsed = Some \<lparr>Evalution = ''SUM'', Critical = 0x4024000000000000, Warning = 0x4014000000000000\<rparr>,
         client_error = None,
         response = [Series \<lparr>Labels = [(''instance_id'', ''a'')], ValueType = ''DOUBLE'', Points = []\<rparr>,
                     Series \<lparr>Labels = [(''instance_id'', ''b'')], ValueType = ''INT64'',
                             Points = [Some (Point (Some (Int64Value 12)))]\<rparr>]\<rparr>
     \<noteq> Exit (output_go UNKNOWN ''Time series is empty.'')
   \<and> main \<lparr>parsed = Some \<lparr>Evalution = ''LAST'', Critical = 0x4024000000000000, Warning = 0x4014000000000000\<rparr>,
         client_error = None,
         response = [Series \<lparr>Labels = [(''instance_id'', ''a'')], ValueType = ''DOUBLE'', Points = []\<rparr>,
                     Series \<lparr>Labels = [(''instance_id'', ''b'')], ValueType = ''INT64'',
                             Points = [Some (Point (Some (Int64Value 12)))]\<rparr>]\<rparr>
     = Panicked IndexOutOfRange"
proof -
  let ?e1 = "\<lparr>Labels = [(''instance_id'', ''a'')], ValueType = ''DOUBLE'', Points = []\<rparr>"
  let ?e2 = "\<lparr>Labels = [(''instance_id'', ''b'')], ValueType = ''INT64'', Points = []\<rparr>"
  let ?f2 = "\<lparr>Labels = [(''instance_id'', ''b'')], ValueType = ''INT64'',
              Points = [Some (Point (Some (Int64Value 12)))]\<rparr>"
  let ?sum = "\<lparr>Evalution = ''SUM'', Critical = 0x4024000000000000, Warning = 0x4014000000000000\<rparr>"
  let ?last = "\<lparr>Evalution = ''LAST'', Critical = 0x4024000000000000, Warning = 0x4014000000000000\<rparr>"
  let ?r1 = "\<lparr>parsed = Some ?sum, client_error = None, response = map Series [?e1, ?e2]\<rparr>"
  let ?r2 = "\<lparr>parsed = Some ?last, client_error = None, response = map Series [?e1, ?e2]\<rparr>"
  let ?r3 = "\<lparr>parsed = Some ?sum, client_error = None, response = map Series [?e1, ?f2]\<rparr>"
  let ?r4 = "\<lparr>parsed = Some ?last, client_error = None, response = map Series [?e1, ?f2]\<rparr>"
  have h1: "parsed ?r1 = Some ?sum \<and> client_error ?r1 = None \<and> response ?r1 = map Series [?e1, ?e2] \<and>
      [?e1, ?e2] \<noteq> [] \<and> (\<forall>g \<in> set [?e1, ?e2]. Points g = [])" by simp
  have h2: "parsed ?r2 = Some ?last \<and> client_error ?r2 = None \<and> response ?r2 = map Series [?e1, ?e2] \<and>
      [?e1, ?e2] \<noteq> [] \<and> (\<forall>g \<in> set [?e1, ?e2]. Points g = [])" by simp
  have h3: "parsed ?r3 = Some ?sum \<and> client_error ?r3 = None \<and> response ?r3 = map Series [?e1, ?f2] \<and>
      (\<forall>g \<in> set [?e1, ?f2]. Evalution ?sum = ''LAST'' \<longrightarrow> Points g \<noteq> [])" by simp
  have h4: "parsed ?r4 = Some ?last \<and> client_error ?r4 = None \<and> response ?r4 = map Series [?e1, ?f2] \<and>
      Evalution ?last = ''LAST'' \<and> (\<exists>g \<in> set [?e1, ?f2]. Points g = [])" by simp
  have c1: "main ?r1 = Exit (output_go UNKNOWN ''Time series is empty.'')"
    using empty_check_counts_all_points [of ?r1 ?sum "[?e1, ?e2]",
        THEN conjunct2, THEN conjunct2, rule_format, OF h1, THEN conjunct1]
    by simp
  have c2: "main ?r2 = Panicked IndexOutOfRange"
    using empty_check_counts_all_points [of ?r2 ?last "[?e1, ?e2]",
        THEN conjunct2, THEN conjunct2, rule_format, OF h2, THEN conjunct2, THEN conjunct2]
    by simp
  have n3: "sum_list (map (\<lambda>g. length (Points g)) [?e1, ?f2]) = 1" by simp
  have c3: "main ?r3 \<noteq> Exit (output_go UNKNOWN ''Time series is empty.'')"
    using empty_check_counts_all_points [of ?r3 ?sum "[?e1, ?f2]",
        THEN conjunct1, rule_format, OF h3, THEN conjunct2] n3
    by simp
  have c4: "main ?r4 = Panicked IndexOutOfRange"
    using empty_check_counts_all_points [of ?r4 ?last "[?e1, ?f2]",
        THEN conjunct2, THEN conjunct1, rule_format, OF h4] .
  from c1 c2 n3 c3 c4 show ?thesis by simp
qed

text \<open>
  C9. A fetch error and a response without points are to be reported as UNKNOWN. Under
  \<^verbatim>\<open>LAST\<close> the program does not do so when a time series without points was returned:
  it panics on \<^verbatim>\<open>points[0]\<close> before the emptiness check, and before a later fetch
  error is seen, while \<^verbatim>\<open>SUM\<close> reports the same response as UNKNOWN.
\<close>

theorem last_policy_empty_group_panics:
  "main \<lparr>parsed = Some \<lparr>Evalution = ''LAST'', Critical = 0x4024000000000000, Warning = 0x4014000000000000\<rparr>,
         client_error = None,
         response = [Series \<lparr>Labels = [(''instance_id'', ''a'')], ValueType = ''DOUBLE'', Points = []\<rparr>]\<rparr>
     = Panicked IndexOutOfRange
   \<and> main \<lparr>parsed = Some \<lparr>Evalution = ''LAST'', Critical = 0x4024000000000000, Warning = 0x4014000000000000\<rparr>,
         client_error = None,
         response = [Series \<lparr>Labels = [(''instance_id'', ''a'')], ValueType = ''DOUBLE'', Points = []\<rparr>,
                     Failure]\<rparr>
     = Panicked IndexOutOfRange
   \<and> main \<lparr>parsed = Some \<lparr>Evalution = ''SUM'', Critical = 0x4024000000000000, Warning = 0x4014000000000000\<rparr>,
         client_error = None,
         response = [Series \<lparr>Labels = [(''instance_id'', ''a'')], ValueType = ''DOUBLE'', Points = []\<rparr>]\<rparr>
     = Exit \<lparr>stdout = ''UNKNOWN - Time series is empty.'' @ [CHR 0x0A], code = 3\<rparr>"
  by (simp add: main_def evaluate_def output_go_def prefix_of_def Println_def status_consts)

end
